theory Spec2Isabelle
  imports Complex_Main "HOL-Library.Word" "HOL-Library.Log_Nat"
begin

unbundle bit_operations_syntax

section \<open>IoT Air Quality Monitor (ESP8266): a model of arduino-air-quality-monitor.ino\<close>

text \<open>
  The firmware keeps six global variables, samples a DHT22 and an MQ-135 every
  \<open>SENSOR_INTERVAL\<close> milliseconds, repaints an OLED every \<open>OLED_UPDATE_INTERVAL\<close>
  milliseconds and answers two HTTP routes. The model below follows the sketch function by
  function. Globals become one record that every function takes and returns; everything
  the sketch reads from the board (the clock, the sensors, a pending request) is an input
  record; everything it writes to a peripheral is appended to an output trace.
\<close>

subsection \<open>C \<open>float\<close> and \<open>double\<close>\<close>

text \<open>
  A C \<open>float\<close> is either NaN or a finite value. Infinities and the sign of zero are left
  out: no operation of the sketch produces or distinguishes them. Arithmetic results are
  rounded to nearest, ties to even, to 24 significant bits (binary32) or 53 (binary64).
  The exponent range is not bounded in the model: with a 32-bit \<open>int\<close> argument every
  intermediate value of \<open>computeGasIndex\<close> is zero or has magnitude between \<open>2\<^sup>-\<^sup>1\<^sup>0\<close> and
  \<open>2\<^sup>3\<^sup>1\<close>, far inside the normal range of both formats (lemma \<open>gas_index_stays_normal\<close>).
\<close>

datatype cfloat = NaN | Fin real

definition isnan :: "cfloat \<Rightarrow> bool" where
  "isnan x = (case x of NaN \<Rightarrow> True | Fin _ \<Rightarrow> False)"

text \<open>The C comparison \<open>a <= b\<close> on floats: false as soon as one side is NaN.\<close>

definition float_le :: "cfloat \<Rightarrow> cfloat \<Rightarrow> bool" where
  "float_le a b = (case (a, b) of (Fin x, Fin y) \<Rightarrow> x \<le> y | _ \<Rightarrow> False)"

text \<open>Nearest integer, ties to the even one.\<close>

definition rne :: "real \<Rightarrow> int" where
  "rne y = (let f = \<lfloor>y\<rfloor>; d = y - of_int f in
     if d < 1 / 2 then f else if 1 / 2 < d then f + 1 else if even f then f else f + 1)"

text \<open>For \<open>x > 0\<close>, the exponent \<open>e\<close> with \<open>2\<^sup>e \<le> x < 2\<^sup>e\<^sup>+\<^sup>1\<close>.\<close>

definition binade :: "real \<Rightarrow> int" where
  "binade x = (if 1 \<le> x then int (floorlog 2 (nat \<lfloor>x\<rfloor>)) - 1
               else - int (floorlog 2 (nat \<lceil>1 / x\<rceil> - 1)))"

text \<open>The spacing of the \<open>p\<close>-bit floating-point numbers around \<open>x\<close>.\<close>

definition quantum :: "nat \<Rightarrow> real \<Rightarrow> real" where
  "quantum p x = 2 powi (binade \<bar>x\<bar> - int p + 1)"

definition round_to :: "nat \<Rightarrow> real \<Rightarrow> real" where
  "round_to p x = (if x = 0 then 0
     else sgn x * (of_int (rne (\<bar>x\<bar> / quantum p x)) * quantum p x))"

definition binary32 :: "real \<Rightarrow> real" where
  "binary32 = round_to 24"

definition binary64 :: "real \<Rightarrow> real" where
  "binary64 = round_to 53"

text \<open>\<open>(float)n\<close> for an \<open>int\<close>, float division, the double product and \<open>(float)d\<close>.\<close>

definition int_to_float :: "int \<Rightarrow> real" where
  "int_to_float n = binary32 (of_int n)"

definition float_div :: "real \<Rightarrow> real \<Rightarrow> real" where
  "float_div a b = binary32 (a / b)"

definition double_mul :: "real \<Rightarrow> real \<Rightarrow> real" where
  "double_mul a b = binary64 (a * b)"

definition double_to_float :: "real \<Rightarrow> real" where
  "double_to_float d = binary32 d"

text \<open>\<open>(int)x\<close> truncates towards zero. On NaN the cast is undefined in C; the model
  returns 0 there, and the sketch only casts the result of \<open>readMQ\<close>, which is finite.\<close>

definition float_to_int :: "cfloat \<Rightarrow> int" where
  "float_to_int x = (case x of NaN \<Rightarrow> 0 | Fin v \<Rightarrow> (if 0 \<le> v then \<lfloor>v\<rfloor> else \<lceil>v\<rceil>))"

subsection \<open>Arduino \<open>String\<close> conversions\<close>

text \<open>
  The \<open>String\<close> constructors belong to the Arduino core, not to the sketch. They are
  modelled by what they print: \<open>String(int)\<close> and \<open>String(unsigned long)\<close> in decimal,
  \<open>String(n, HEX)\<close> in lower-case hexadecimal without padding, and \<open>String(float, prec)\<close>
  as \<open>dtostrf(value, prec + 2, prec)\<close>: the magnitude rounded half up at the last printed
  decimal, a minus sign for negative values, right-aligned in the given width. Digits are
  extracted in exact arithmetic.
\<close>

definition digit_char :: "nat \<Rightarrow> char" where
  "digit_char d = ''0123456789abcdef'' ! d"

fun digits_base :: "nat \<Rightarrow> nat \<Rightarrow> string" where
  "digits_base b n = (if b < 2 \<or> 16 < b then []
     else if n < b then [digit_char n]
     else digits_base b (n div b) @ [digit_char (n mod b)])"

declare digits_base.simps [simp del]

definition String_int :: "int \<Rightarrow> string" where
  "String_int n = (if n < 0 then ''-'' @ digits_base 10 (nat (- n)) else digits_base 10 (nat n))"

definition String_ulong :: "32 word \<Rightarrow> string" where
  "String_ulong w = digits_base 10 (unat w)"

definition String_hex :: "32 word \<Rightarrow> string" where
  "String_hex w = digits_base 16 (unat w)"

definition dtostrf :: "real \<Rightarrow> nat \<Rightarrow> nat \<Rightarrow> string" where
  "dtostrf number width prec =
     (let negative = number < 0;
          m = \<bar>number\<bar> + 1 / (2 * 10 ^ prec);
          whole = digits_base 10 (nat \<lfloor>m\<rfloor>);
          frac = map (\<lambda>i. digit_char (nat (\<lfloor>m * 10 ^ Suc i\<rfloor> mod 10))) [0..<prec];
          body = (if negative then ''-'' else []) @ whole @ (if 0 < prec then ''.'' @ frac else [])
      in replicate (width - length body) (CHR '' '') @ body)"

definition String_float :: "cfloat \<Rightarrow> nat \<Rightarrow> string" where
  "String_float x prec = (case x of NaN \<Rightarrow> ''nan'' | Fin v \<Rightarrow> dtostrf v (prec + 2) prec)"

subsection \<open>Configuration\<close>

definition ap_ssid_prefix :: string where
  "ap_ssid_prefix = ''AQMonitor_''"

definition ap_password :: string where
  "ap_password = ''change_me01''"

definition ap_channel :: "16 word" where
  "ap_channel = 6"

definition SENSOR_INTERVAL :: "32 word" where
  "SENSOR_INTERVAL = 2000"

definition OLED_UPDATE_INTERVAL :: "32 word" where
  "OLED_UPDATE_INTERVAL = 1000"

definition ADC_MAX :: real where
  "ADC_MAX = 1023"

subsection \<open>State and outputs\<close>

text \<open>What the sketch writes: an HTTP response (status, content type, body), the
  arguments of the \<open>Serial.printf\<close> after a sample, and the four values painted on the
  display. The layout of the serial line and of the display is not modelled.\<close>

datatype effect =
    HttpSend nat string string
  | SerialPrintf cfloat cfloat int cfloat
  | OledFrame cfloat cfloat int cfloat

record monitor =
  lastSensorMillis :: "32 word"
  lastOLEDMillis :: "32 word"
  lastTemp :: cfloat
  lastHum :: cfloat
  lastMQRaw :: int
  lastGasIndex :: cfloat
  out :: "effect list"

text \<open>The initialisers of the globals; \<open>setup\<close> writes none of them.\<close>

definition boot :: monitor where
  "boot = \<lparr>lastSensorMillis = 0, lastOLEDMillis = 0, lastTemp = NaN, lastHum = NaN,
            lastMQRaw = 0, lastGasIndex = Fin 0, out = []\<rparr>"

text \<open>What one pass of \<open>loop\<close> reads from the board. \<open>clock\<close> and \<open>request_clock\<close> are
  the true number of milliseconds since power-up at the two calls of \<open>millis()\<close>, which
  returns them modulo \<open>2\<^sup>3\<^sup>2\<close>.\<close>

record inputs =
  request :: "string option"
  request_clock :: nat
  softAPIP :: string
  clock :: nat
  dht_temperature :: cfloat
  dht_humidity :: cfloat
  analog :: int
  display_width :: int

definition millis :: "nat \<Rightarrow> 32 word" where
  "millis t = of_nat t"

subsection \<open>Sensor helpers\<close>

definition readMQ :: "int \<Rightarrow> cfloat" where
  "readMQ raw = Fin (int_to_float raw)"

definition computeGasIndex :: "int \<Rightarrow> cfloat" where
  "computeGasIndex raw =
     (let normalized = float_div (int_to_float raw) ADC_MAX;
          inverted = normalized;
          idx = double_to_float (double_mul inverted 300);
          idx = (if idx < 0 then 0 else idx);
          idx = (if idx > 500 then 500 else idx)
      in Fin idx)"

subsection \<open>Web server handlers\<close>

definition degree_C :: string where
  "degree_C = [CHR '' '', CHR 0xC3, CHR 0x82, CHR 0xC2, CHR 0xB0, CHR ''C'']"

definition root_html :: "monitor \<Rightarrow> string \<Rightarrow> string" where
  "root_html s ip =
     ''<!DOCTYPE html><html><head><meta charset='' @ [CHR 0x27] @ ''utf-8'' @ [CHR 0x27]
       @ ''><meta name='' @ [CHR 0x27] @ ''viewport'' @ [CHR 0x27] @ '' content='' @ [CHR 0x27]
       @ ''width=device-width,initial-scale=1'' @ [CHR 0x27] @ ''>''
     @ ''<title>AQ Monitor</title>''
     @ ''<style>body{font-family:Arial,Helvetica,sans-serif;padding:12px} .card{padding:10px;border-radius:8px;background:#f2f2f2;margin-bottom:8px}</style>''
     @ ''<meta http-equiv='' @ [CHR 0x27] @ ''refresh'' @ [CHR 0x27] @ '' content='' @ [CHR 0x27]
       @ ''5'' @ [CHR 0x27] @ ''>''
     @ ''</head><body>''
     @ ''<h2>IoT Air Quality Monitor</h2>''
     @ ''<div class='' @ [CHR 0x27] @ ''card'' @ [CHR 0x27] @ ''><b>Temperature:</b> ''
     @ (if isnan (lastTemp s) then ''N/A'' else String_float (lastTemp s) 1 @ degree_C)
     @ ''</div>''
     @ ''<div class='' @ [CHR 0x27] @ ''card'' @ [CHR 0x27] @ ''><b>Humidity:</b> ''
     @ (if isnan (lastHum s) then ''N/A'' else String_float (lastHum s) 1 @ '' %'')
     @ ''</div>''
     @ ''<div class='' @ [CHR 0x27] @ ''card'' @ [CHR 0x27] @ ''><b>MQ-135 raw:</b> ''
       @ String_int (lastMQRaw s) @ ''</div>''
     @ ''<div class='' @ [CHR 0x27] @ ''card'' @ [CHR 0x27] @ ''><b>Estimated AQI-like index:</b> ''
       @ String_float (lastGasIndex s) 0 @ '' (lower better)</div>''
     @ ''<p><a href='' @ [CHR 0x27] @ ''/data'' @ [CHR 0x27] @ ''>Get JSON</a></p>''
     @ ''<p>Connect your phone to WiFi: <b>'' @ ap_ssid_prefix @ ip @ ''</b></p>''
     @ ''</body></html>''"

definition handleRoot :: "monitor \<Rightarrow> string \<Rightarrow> monitor" where
  "handleRoot s ip = s\<lparr>out := out s @ [HttpSend 200 ''text/html'' (root_html s ip)]\<rparr>"

definition data_json :: "monitor \<Rightarrow> 32 word \<Rightarrow> string" where
  \<open>data_json s now =
     ''{''
     @ ''"temperature":'' @ (if isnan (lastTemp s) then ''null'' else String_float (lastTemp s) 2) @ '',''
     @ ''"humidity":'' @ (if isnan (lastHum s) then ''null'' else String_float (lastHum s) 2) @ '',''
     @ ''"mq_raw":'' @ String_int (lastMQRaw s) @ '',''
     @ ''"aq_index":'' @ String_float (lastGasIndex s) 2 @ '',''
     @ ''"time_ms":'' @ String_ulong now
     @ ''}''\<close>

definition handleData :: "monitor \<Rightarrow> 32 word \<Rightarrow> monitor" where
  "handleData s now = s\<lparr>out := out s @ [HttpSend 200 ''application/json'' (data_json s now)]\<rparr>"

text \<open>\<open>server.handleClient()\<close> serves at most one pending request: the two routes
  registered in \<open>setup\<close>, and the library's 404 for any other path.\<close>

definition handleClient :: "monitor \<Rightarrow> inputs \<Rightarrow> monitor" where
  "handleClient s inp =
     (case request inp of
        None \<Rightarrow> s
      | Some uri \<Rightarrow>
          if uri = ''/'' then handleRoot s (softAPIP inp)
          else if uri = ''/data'' then handleData s (millis (request_clock inp))
          else s\<lparr>out := out s @ [HttpSend 404 ''text/plain'' (''Not found: '' @ uri)]\<rparr>)"

subsection \<open>WiFi access point\<close>

datatype wifi_call = Mode_WIFI_AP | SoftAP string "string option" "16 word"

definition ap_ssid :: "32 word \<Rightarrow> string" where
  "ap_ssid chip_id = ap_ssid_prefix @ String_hex (chip_id AND 0xFFFF)"

definition startAP :: "32 word \<Rightarrow> string \<Rightarrow> 16 word \<Rightarrow> wifi_call list" where
  "startAP chip_id password channel =
     (let ssid = ap_ssid chip_id
      in [Mode_WIFI_AP,
          if 8 \<le> length password then SoftAP ssid (Some password) channel
          else SoftAP ssid None channel])"

subsection \<open>The scheduler loop\<close>

definition sensor_due :: "32 word \<Rightarrow> 32 word \<Rightarrow> bool" where
  "sensor_due now prev = (SENSOR_INTERVAL \<le> now - prev)"

definition oled_due :: "32 word \<Rightarrow> 32 word \<Rightarrow> bool" where
  "oled_due now prev = (OLED_UPDATE_INTERVAL \<le> now - prev)"

definition sample :: "monitor \<Rightarrow> 32 word \<Rightarrow> inputs \<Rightarrow> monitor" where
  "sample s now inp =
     (let s = s\<lparr>lastSensorMillis := now\<rparr>;
          t = dht_temperature inp;
          h = dht_humidity inp;
          mq = float_to_int (readMQ (analog inp));
          s = (if \<not> isnan t then s\<lparr>lastTemp := t\<rparr> else s);
          s = (if \<not> isnan h then s\<lparr>lastHum := h\<rparr> else s);
          s = s\<lparr>lastMQRaw := mq\<rparr>;
          s = s\<lparr>lastGasIndex := computeGasIndex mq\<rparr>
      in s\<lparr>out := out s @ [SerialPrintf (lastTemp s) (lastHum s) (lastMQRaw s) (lastGasIndex s)]\<rparr>)"

definition repaint :: "monitor \<Rightarrow> 32 word \<Rightarrow> inputs \<Rightarrow> monitor" where
  "repaint s now inp =
     (let s = s\<lparr>lastOLEDMillis := now\<rparr>
      in if 0 < display_width inp
         then s\<lparr>out := out s @ [OledFrame (if isnan (lastTemp s) then NaN else lastTemp s)
                                             (if isnan (lastHum s) then NaN else lastHum s)
                                             (lastMQRaw s) (lastGasIndex s)]\<rparr>
         else s)"

definition loop :: "monitor \<Rightarrow> inputs \<Rightarrow> monitor" where
  "loop s inp =
     (let s = handleClient s inp;
          now = millis (clock inp);
          s = (if sensor_due now (lastSensorMillis s) then sample s now inp else s);
          s = (if oled_due now (lastOLEDMillis s) then repaint s now inp else s)
      in s)"

text \<open>The firmware calls \<open>loop\<close> forever; a run is any finite prefix.\<close>

fun run :: "monitor \<Rightarrow> inputs list \<Rightarrow> monitor" where
  "run s [] = s"
| "run s (inp # rest) = run (loop s inp) rest"

text \<open>The true times of the passes in which the sensors were sampled, and the valid
  temperature and humidity readings taken in those passes, in order.\<close>

fun fire_times :: "monitor \<Rightarrow> inputs list \<Rightarrow> nat list" where
  "fire_times s [] = []"
| "fire_times s (inp # rest) =
     (if sensor_due (millis (clock inp)) (lastSensorMillis s) then [clock inp] else [])
     @ fire_times (loop s inp) rest"

fun temps_recorded :: "monitor \<Rightarrow> inputs list \<Rightarrow> cfloat list" where
  "temps_recorded s [] = []"
| "temps_recorded s (inp # rest) =
     (if sensor_due (millis (clock inp)) (lastSensorMillis s) \<and> \<not> isnan (dht_temperature inp)
      then [dht_temperature inp] else [])
     @ temps_recorded (loop s inp) rest"

fun hums_recorded :: "monitor \<Rightarrow> inputs list \<Rightarrow> cfloat list" where
  "hums_recorded s [] = []"
| "hums_recorded s (inp # rest) =
     (if sensor_due (millis (clock inp)) (lastSensorMillis s) \<and> \<not> isnan (dht_humidity inp)
      then [dht_humidity inp] else [])
     @ hums_recorded (loop s inp) rest"

text \<open>Successive entries of a list of times are at least \<open>d\<close> apart.\<close>

fun spaced :: "nat \<Rightarrow> nat list \<Rightarrow> bool" where
  "spaced d [] = True"
| "spaced d [t] = True"
| "spaced d (t # u # r) = (t + d \<le> u \<and> spaced d (u # r))"

subsection \<open>The specification's reference definitions\<close>

definition clamp :: "real \<Rightarrow> real \<Rightarrow> real \<Rightarrow> real" where
  "clamp x lo hi = max lo (min x hi)"

text \<open>\<open>normalized = raw / 1023.0\<close>, \<open>index = normalized * 300.0\<close>, clamped to \<open>[0, 500]\<close>.\<close>

definition gas_index_reference :: "int \<Rightarrow> cfloat" where
  "gas_index_reference raw =
     Fin (clamp (double_to_float (double_mul (float_div (int_to_float raw) 1023) 300)) 0 500)"

text \<open>The same formula in exact arithmetic.\<close>

definition gas_index_exact :: "int \<Rightarrow> real" where
  "gas_index_exact raw = clamp (of_int raw / 1023 * 300) 0 500"

text \<open>The linear map alone, without the clamp.\<close>

definition gas_index_linear :: "int \<Rightarrow> real" where
  "gas_index_linear raw = double_to_float (double_mul (float_div (int_to_float raw) 1023) 300)"

text \<open>The \<open>/data\<close> body of the specification: a field that holds no valid reading is
  \<open>null\<close>, every other number is printed with two decimals.\<close>

definition valid_reading :: "cfloat \<Rightarrow> real option" where
  "valid_reading x = (case x of NaN \<Rightarrow> None | Fin v \<Rightarrow> Some v)"

definition json_number_or_null :: "real option \<Rightarrow> string" where
  "json_number_or_null x = (case x of None \<Rightarrow> ''null'' | Some v \<Rightarrow> String_float (Fin v) 2)"

definition data_body_spec :: "real option \<Rightarrow> real option \<Rightarrow> int \<Rightarrow> cfloat \<Rightarrow> 32 word \<Rightarrow> string" where
  \<open>data_body_spec temperature humidity gasRaw gasIndex tick =
     ''{"temperature":'' @ json_number_or_null temperature
     @ '',"humidity":'' @ json_number_or_null humidity
     @ '',"mq_raw":'' @ String_int gasRaw
     @ '',"aq_index":'' @ String_float gasIndex 2
     @ '',"time_ms":'' @ String_ulong tick @ ''}''\<close>

text \<open>A decimal number with exactly two digits after the point: an optional minus sign,
  at least one digit, a point, two digits.\<close>

definition is_digit :: "char \<Rightarrow> bool" where
  "is_digit c = (c \<in> set ''0123456789'')"

definition is_two_decimals :: "string \<Rightarrow> bool" where
  "is_two_decimals s =
     (let t = (case s of [] \<Rightarrow> [] | c # r \<Rightarrow> if c = CHR ''-'' then r else s);
          whole = takeWhile is_digit t;
          rest = dropWhile is_digit t
      in whole \<noteq> [] \<and>
         (case rest of [p, a, b] \<Rightarrow> p = CHR ''.'' \<and> is_digit a \<and> is_digit b | _ \<Rightarrow> False))"

text \<open>A decimal integer: an optional minus sign and at least one digit.\<close>

definition is_integer :: "string \<Rightarrow> bool" where
  "is_integer s =
     (let t = (case s of [] \<Rightarrow> [] | c # r \<Rightarrow> if c = CHR ''-'' then r else s)
      in t \<noteq> [] \<and> list_all is_digit t)"

subsection \<open>Example inputs\<close>

text \<open>A pass of the loop at true time \<open>t\<close> in which no client is waiting, both DHT22
  reads fail, the ADC reads 0 and no display is attached.\<close>

definition idle_pass :: "nat \<Rightarrow> inputs" where
  "idle_pass t = \<lparr>request = None, request_clock = t, softAPIP = ''192.168.4.1'', clock = t,
     dht_temperature = NaN, dht_humidity = NaN, analog = 0, display_width = 0\<rparr>"

section \<open>Properties\<close>

subsection \<open>Rounding\<close>

lemma rne_of_int [simp]: "rne (of_int n) = n"
  by (simp add: rne_def)

lemma rne_mono: "y \<le> y' \<Longrightarrow> rne y \<le> rne y'"
proof -
  assume le: "y \<le> y'"
  have fl: "\<lfloor>y\<rfloor> \<le> \<lfloor>y'\<rfloor>" using le by (rule floor_mono)
  have a: "rne y \<le> \<lfloor>y\<rfloor> + 1" by (simp add: rne_def Let_def)
  have b: "\<lfloor>y'\<rfloor> \<le> rne y'" by (simp add: rne_def Let_def)
  show ?thesis
  proof (cases "\<lfloor>y\<rfloor> = \<lfloor>y'\<rfloor>")
    case True
    then show ?thesis using le by (auto simp: rne_def Let_def)
  next
    case False
    then have "\<lfloor>y\<rfloor> + 1 \<le> \<lfloor>y'\<rfloor>" using fl by linarith
    then show ?thesis using a b by linarith
  qed
qed

lemma pow2_le_real: "2 ^ k \<le> (n::nat) \<Longrightarrow> (2::real) ^ k \<le> real n"
  by (metis of_nat_le_iff of_nat_numeral of_nat_power)

lemma lt_pow2_real: "(n::nat) < 2 ^ k \<Longrightarrow> real n + 1 \<le> 2 ^ k"
proof -
  assume "n < 2 ^ k"
  then have "Suc n \<le> 2 ^ k" by simp
  then have "real (Suc n) \<le> real (2 ^ k)" by (simp only: of_nat_le_iff)
  then show ?thesis by simp
qed

lemma floorlog2_Suc:
  assumes "0 < n"
  obtains k where "floorlog 2 n = Suc k" "2 ^ k \<le> n" "n < 2 ^ Suc k"
proof -
  have "floorlog 2 n \<noteq> 0" using assms by (simp add: floorlog_eq_zero_iff)
  then obtain k where k: "floorlog 2 n = Suc k" by (cases "floorlog 2 n") auto
  have "2 ^ (floorlog 2 n - 1) \<le> n \<and> n < 2 ^ floorlog 2 n"
    using floorlog_bounds[of n 2] assms by simp
  then show thesis using k that by simp
qed

lemma binade_ge1:
  assumes "1 \<le> x"
  obtains k where "binade x = int k" "2 ^ k \<le> x" "x < 2 ^ Suc k"
proof -
  define n where "n = nat \<lfloor>x\<rfloor>"
  have n: "0 < n" using assms by (simp add: n_def)
  from floorlog2_Suc[OF n] obtain k where k: "floorlog 2 n = Suc k" "2 ^ k \<le> n" "n < 2 ^ Suc k"
    by blast
  have nx1: "real n \<le> x" using assms by (simp add: n_def)
  have nx2: "x < real n + 1" using assms by (simp add: n_def)
  have lo: "2 ^ k \<le> x" using pow2_le_real[OF k(2)] nx1 by linarith
  have hi: "x < 2 ^ Suc k" using lt_pow2_real[OF k(3)] nx2 by linarith
  have "binade x = int k" using assms k(1) by (simp add: binade_def n_def[symmetric])
  then show thesis using lo hi that by blast
qed

lemma binade_lt1:
  assumes "0 < x" "x < 1"
  obtains k where "binade x = - int (Suc k)" "1 / 2 ^ Suc k \<le> x" "x < 1 / 2 ^ k"
proof -
  define y where "y = 1 / x"
  have y: "1 < y" using assms by (simp add: y_def)
  define m where "m = nat \<lceil>y\<rceil> - 1"
  have c2: "2 \<le> \<lceil>y\<rceil>" using y by linarith
  have m: "0 < m" unfolding m_def using c2 by linarith
  have "int (nat \<lceil>y\<rceil>) = \<lceil>y\<rceil>" using c2 by linarith
  then have "real (nat \<lceil>y\<rceil>) = of_int \<lceil>y\<rceil>" by (metis of_int_of_nat_eq)
  moreover have "1 \<le> nat \<lceil>y\<rceil>" using c2 by linarith
  ultimately have rm: "real m = of_int \<lceil>y\<rceil> - 1" by (simp add: m_def of_nat_diff)
  have my1: "real m < y" unfolding rm by linarith
  have my2: "y \<le> real m + 1" unfolding rm by linarith
  from floorlog2_Suc[OF m] obtain k where k: "floorlog 2 m = Suc k" "2 ^ k \<le> m" "m < 2 ^ Suc k"
    by blast
  have "2 ^ k < y" using pow2_le_real[OF k(2)] my1 by linarith
  then have hi: "x < 1 / 2 ^ k" using assms by (simp add: y_def field_simps)
  have "y \<le> 2 ^ Suc k" using lt_pow2_real[OF k(3)] my2 by linarith
  then have lo: "1 / 2 ^ Suc k \<le> x" using assms by (simp add: y_def field_simps)
  have "binade x = - int (floorlog 2 m)" using assms unfolding binade_def y_def m_def by simp
  then have "binade x = - int (Suc k)" by (simp only: k(1))
  then show thesis using lo hi that by blast
qed

lemma binade_bounds:
  assumes "0 < x"
  shows "2 powi (binade x) \<le> x \<and> x < 2 powi (binade x + 1)"
proof (cases "1 \<le> x")
  case True
  from binade_ge1[OF True] obtain k where k: "binade x = int k" "2 ^ k \<le> x" "x < 2 ^ Suc k" by blast
  have "int k + 1 = int (Suc k)" by simp
  then show ?thesis using k by (simp only: k(1) power_int_of_nat) 
next
  case False
  then have "x < 1" by simp
  from binade_lt1[OF assms this] obtain k where
    k: "binade x = - int (Suc k)" "1 / 2 ^ Suc k \<le> x" "x < 1 / 2 ^ k" by blast
  have "- int (Suc k) + 1 = - int k" by simp
  then show ?thesis using k by (simp only: k(1) power_int_minus power_int_of_nat inverse_eq_divide)
qed


lemma quantum_pos: "0 < quantum p x"
  by (simp add: quantum_def)

lemma round_to_pos: "0 < x \<Longrightarrow> round_to p x = of_int (rne (x / quantum p x)) * quantum p x"
  by (simp add: round_to_def)

lemma quantum_minus: "quantum p (- x) = quantum p x"
  by (simp add: quantum_def)

lemma round_to_minus: "round_to p (- x) = - round_to p x"
  by (simp add: round_to_def quantum_minus sgn_minus)

lemma round_to_zero: "round_to p 0 = 0"
  by (simp add: round_to_def)

lemma round_to_bounds:
  assumes "0 < x" "0 < p"
  shows "2 powi (binade x) \<le> round_to p x \<and> round_to p x \<le> 2 powi (binade x + 1)"
proof -
  define q where "q = quantum p x"
  have q: "0 < q" by (simp add: q_def quantum_pos)
  have qe: "q = 2 powi (binade x - int p + 1)" using assms by (simp add: q_def quantum_def)
  obtain p' where p': "p = Suc p'" using assms(2) by (cases p) auto
  have lo_q: "2 powi (binade x) = 2 ^ p' * q"
    by (simp add: qe p' power_int_diff power_int_add field_simps)
  have hi_q: "2 powi (binade x + 1) = 2 ^ p * q"
    by (simp add: qe p' power_int_diff power_int_add field_simps)
  from binade_bounds[OF assms(1)] have b: "2 powi (binade x) \<le> x" "x < 2 powi (binade x + 1)"
    by simp_all
  have "2 ^ p' * q \<le> x" using b(1) by (simp only: lo_q)
  then have "2 ^ p' \<le> x / q" using q by (simp add: field_simps)
  then have "rne (of_int (2 ^ p')) \<le> rne (x / q)" by (intro rne_mono) simp
  then have l: "2 ^ p' \<le> rne (x / q)" by (simp only: rne_of_int)
  have "x < 2 ^ p * q" using b(2) by (simp only: hi_q)
  then have "x / q \<le> 2 ^ p" using q by (simp add: field_simps)
  then have "rne (x / q) \<le> rne (of_int (2 ^ p))" by (intro rne_mono) simp
  then have h: "rne (x / q) \<le> 2 ^ p" by (simp only: rne_of_int)
  have "real_of_int (2 ^ p') \<le> of_int (rne (x / q))" using l by (simp only: of_int_le_iff)
  then have l': "2 ^ p' * q \<le> of_int (rne (x / q)) * q" using q by simp
  have "real_of_int (rne (x / q)) \<le> of_int (2 ^ p)" using h by (simp only: of_int_le_iff)
  then have h': "of_int (rne (x / q)) * q \<le> 2 ^ p * q" using q by simp
  show ?thesis using l' h' by (simp add: round_to_pos[OF assms(1)] q_def[symmetric] lo_q hi_q)
qed

lemma binade_mono:
  assumes "0 < x" "x \<le> y"
  shows "binade x \<le> binade y"
proof -
  have "0 < y" using assms by simp
  from binade_bounds[OF assms(1)] binade_bounds[OF this]
  have "(2::real) powi (binade x) < 2 powi (binade y + 1)" using assms(2) by linarith
  then have "\<not> binade y + 1 \<le> binade x"
    using power_int_increasing[of "binade y + 1" "binade x" "2::real"] by auto
  then show ?thesis by simp
qed

lemma round_to_mono_pos:
  assumes "0 < x" "x \<le> y" "0 < p"
  shows "round_to p x \<le> round_to p y"
proof -
  have y: "0 < y" using assms by simp
  have le: "binade x \<le> binade y" by (rule binade_mono[OF assms(1,2)])
  show ?thesis
  proof (cases "binade x = binade y")
    case True
    have qq: "quantum p x = quantum p y" using assms(1) y True by (simp add: quantum_def)
    have "x / quantum p y \<le> y / quantum p y" using assms(2) quantum_pos[of p y]
      by (simp add: divide_right_mono)
    then have "rne (x / quantum p y) \<le> rne (y / quantum p y)" by (rule rne_mono)
    then have "real_of_int (rne (x / quantum p y)) \<le> of_int (rne (y / quantum p y))"
      by (simp only: of_int_le_iff)
    then show ?thesis using quantum_pos[of p y]
      by (simp add: round_to_pos[OF assms(1)] round_to_pos[OF y] qq)
  next
    case False
    then have "binade x + 1 \<le> binade y" using le by simp
    then have "(2::real) powi (binade x + 1) \<le> 2 powi (binade y)"
      by (simp add: power_int_increasing)
    then show ?thesis
      using round_to_bounds[OF assms(1,3)] round_to_bounds[OF y assms(3)] by linarith
  qed
qed

lemma round_to_nonneg: "0 \<le> x \<Longrightarrow> 0 < p \<Longrightarrow> 0 \<le> round_to p x"
proof (cases "x = 0")
  case True
  then show ?thesis by (simp add: round_to_zero)
next
  case False
  assume "0 \<le> x" "0 < p"
  then have x: "0 < x" using False by simp
  have "(0::real) \<le> 2 powi (binade x)" by simp
  then show ?thesis using round_to_bounds[OF x \<open>0 < p\<close>] by linarith
qed

lemma round_to_mono:
  assumes "x \<le> y" "0 < p"
  shows "round_to p x \<le> round_to p y"
proof -
  consider "0 < x" | "x \<le> 0" "0 \<le> y" | "y < 0" by linarith
  then show ?thesis
  proof cases
    case 1
    then show ?thesis by (rule round_to_mono_pos[OF _ assms])
  next
    case 2
    have "0 \<le> round_to p (- x)" using 2(1) assms(2) by (intro round_to_nonneg) simp_all
    then have "round_to p x \<le> 0" by (simp add: round_to_minus)
    moreover have "0 \<le> round_to p y" using 2(2) assms(2) by (rule round_to_nonneg)
    ultimately show ?thesis by linarith
  next
    case 3
    have "round_to p (- y) \<le> round_to p (- x)"
      using 3 assms by (intro round_to_mono_pos) simp_all
    then show ?thesis by (simp add: round_to_minus)
  qed
qed

lemma round_to_exact:
  assumes "0 < x" "x / quantum p x = of_int n"
  shows "round_to p x = x"
proof -
  have "round_to p x = of_int n * quantum p x"
    by (simp add: round_to_pos[OF assms(1)] assms(2))
  also have "\<dots> = x" using assms(2) quantum_pos[of p x] by (simp add: field_simps)
  finally show ?thesis .
qed

lemma round_to_nat_exact:
  assumes "n < 2 ^ p" "0 < p"
  shows "round_to p (real n) = real n"
proof (cases "n = 0")
  case True
  then show ?thesis by (simp add: round_to_zero)
next
  case False
  then have x: "1 \<le> real n" by simp
  from binade_ge1[OF x] obtain k where k: "binade (real n) = int k" "2 ^ k \<le> real n" "real n < 2 ^ Suc k"
    by blast
  have "(2::real) ^ k < 2 ^ p" using k(2) assms(1)
    by (metis le_less_trans of_nat_less_iff of_nat_numeral of_nat_power)
  then have kp: "k < p" by simp
  then obtain d where d: "p = Suc (k + d)" using less_iff_Suc_add by auto
  have "quantum p (real n) = 2 powi (- int d)"
    by (simp add: quantum_def k(1) d)
  then have q: "quantum p (real n) = 1 / 2 ^ d"
    by (simp add: power_int_minus inverse_eq_divide)
  have "real n / quantum p (real n) = of_int (int n * 2 ^ d)" by (simp add: q)
  then show ?thesis using x by (intro round_to_exact[where n = "int n * 2 ^ d"]) simp_all
qed

subsection \<open>The gas index\<close>

lemma binary32_mono: "x \<le> y \<Longrightarrow> binary32 x \<le> binary32 y"
  by (simp add: binary32_def round_to_mono)

lemma binary64_mono: "x \<le> y \<Longrightarrow> binary64 x \<le> binary64 y"
  by (simp add: binary64_def round_to_mono)

lemma binary32_nat: "n < 2 ^ 24 \<Longrightarrow> binary32 (real n) = real n"
  by (simp add: binary32_def round_to_nat_exact)

lemma binary64_nat: "n < 2 ^ 53 \<Longrightarrow> binary64 (real n) = real n"
  by (simp add: binary64_def round_to_nat_exact)

lemma binary32_0: "binary32 0 = 0"
  by (simp add: binary32_def round_to_zero)

lemma binary32_1: "binary32 1 = 1"
  using binary32_nat[of 1] by simp

lemma binary32_300: "binary32 300 = 300"
  using binary32_nat[of 300] by simp

lemma binary32_1023: "binary32 1023 = 1023"
  using binary32_nat[of 1023] by simp

lemma binary64_300: "binary64 300 = 300"
  using binary64_nat[of 300] by simp

lemma binary64_0: "binary64 0 = 0"
  by (simp add: binary64_def round_to_zero)

lemma gas_index_linear_mono: "raw1 \<le> raw2 \<Longrightarrow> gas_index_linear raw1 \<le> gas_index_linear raw2"
  unfolding gas_index_linear_def double_to_float_def double_mul_def float_div_def int_to_float_def
  by (intro binary32_mono binary64_mono) (simp add: divide_right_mono binary32_mono)

lemma gas_index_linear_0: "gas_index_linear 0 = 0"
  by (simp add: gas_index_linear_def double_to_float_def double_mul_def float_div_def
      int_to_float_def binary32_0 binary64_0)

lemma gas_index_linear_1023: "gas_index_linear 1023 = 300"
  by (simp add: gas_index_linear_def double_to_float_def double_mul_def float_div_def
      int_to_float_def binary32_1023 binary32_1 binary64_300 binary32_300)

lemma computeGasIndex_clip:
  "computeGasIndex raw =
     Fin (if gas_index_linear raw < 0 then 0
          else if 500 < gas_index_linear raw then 500 else gas_index_linear raw)"
  by (simp add: computeGasIndex_def gas_index_linear_def ADC_MAX_def Let_def)

lemma gas_index_linear_range:
  assumes "0 \<le> raw" "raw \<le> 1023"
  shows "0 \<le> gas_index_linear raw" "gas_index_linear raw \<le> 300"
  using gas_index_linear_mono[OF assms(1)] gas_index_linear_mono[OF assms(2)]
  by (simp_all add: gas_index_linear_0 gas_index_linear_1023)

lemma computeGasIndex_in_domain:
  assumes "0 \<le> raw" "raw \<le> 1023"
  shows "computeGasIndex raw = Fin (gas_index_linear raw)"
  using gas_index_linear_range[OF assms] by (simp add: computeGasIndex_clip)

lemma gas_index_linear_2000: "500 < gas_index_linear 2000"
proof -
  have a: "binary32 2000 = 2000" using binary32_nat[of 2000] by simp
  have "binary32 (7 / 4) \<le> binary32 (2000 / 1023)" by (intro binary32_mono) simp
  moreover have "binary32 (7 / 4) = 7 / 4" by (simp add: binary32_def) code_simp
  ultimately have b: "7 / 4 \<le> binary32 (2000 / 1023)" by simp
  have "binary64 525 \<le> binary64 (binary32 (2000 / 1023) * 300)"
    using b by (intro binary64_mono) simp
  moreover have "binary64 525 = 525" using binary64_nat[of 525] by simp
  ultimately have "525 \<le> binary64 (binary32 (2000 / 1023) * 300)" by simp
  then have "binary32 525 \<le> binary32 (binary64 (binary32 (2000 / 1023) * 300))"
    by (rule binary32_mono)
  moreover have "binary32 525 = 525" using binary32_nat[of 525] by simp
  ultimately show ?thesis
    by (simp add: gas_index_linear_def double_to_float_def double_mul_def float_div_def
        int_to_float_def a)
qed

text \<open>With a 32-bit argument no intermediate value of \<open>computeGasIndex\<close> leaves the range of
  normal binary32 numbers (magnitudes from \<open>2\<^sup>-\<^sup>1\<^sup>2\<^sup>6\<close> to below \<open>2\<^sup>1\<^sup>2\<^sup>8\<close>), so the unbounded
  exponent of the model is never used.\<close>

lemma round_to_abs: "\<bar>round_to p x\<bar> = round_to p \<bar>x\<bar>" if "0 < p"
proof (cases "0 \<le> x")
  case True
  then show ?thesis using round_to_nonneg[OF True that] by simp
next
  case False
  then have "0 \<le> round_to p (- x)" using that by (intro round_to_nonneg) simp_all
  then show ?thesis using False by (simp add: round_to_minus)
qed

lemma binary32_abs_bounds:
  assumes "lo \<le> \<bar>x\<bar>" "\<bar>x\<bar> \<le> hi" "binary32 lo = lo" "binary32 hi = hi"
  shows "lo \<le> \<bar>binary32 x\<bar> \<and> \<bar>binary32 x\<bar> \<le> hi"
proof -
  have "\<bar>binary32 x\<bar> = binary32 \<bar>x\<bar>" by (simp add: binary32_def round_to_abs)
  then show ?thesis
    using binary32_mono[OF assms(1)] binary32_mono[OF assms(2)] assms(3,4) by simp
qed

lemma binary64_abs_bounds:
  assumes "lo \<le> \<bar>x\<bar>" "\<bar>x\<bar> \<le> hi" "binary64 lo = lo" "binary64 hi = hi"
  shows "lo \<le> \<bar>binary64 x\<bar> \<and> \<bar>binary64 x\<bar> \<le> hi"
proof -
  have "\<bar>binary64 x\<bar> = binary64 \<bar>x\<bar>" by (simp add: binary64_def round_to_abs)
  then show ?thesis
    using binary64_mono[OF assms(1)] binary64_mono[OF assms(2)] assms(3,4) by simp
qed

lemma binary32_pow2_neg10: "binary32 (1 / 1024) = 1 / 1024"
  by (simp add: binary32_def) code_simp

lemma binary32_quarter: "binary32 (1 / 4) = 1 / 4"
  by (simp add: binary32_def) code_simp

lemma binary64_quarter: "binary64 (1 / 4) = 1 / 4"
  by (simp add: binary64_def) code_simp

lemma binade_pow2: "binade (2 ^ k) = int k"
proof -
  have "(1::real) \<le> 2 ^ k" by simp
  from binade_ge1[OF this] obtain j where
    j: "binade (2 ^ k) = int j" "(2::real) ^ j \<le> 2 ^ k" "(2::real) ^ k < 2 ^ Suc j"
    by blast
  have "j \<le> k" using j(2) by simp
  moreover have "k < Suc j" using j(3) by (simp only: power_strict_increasing_iff one_less_numeral_iff semiring_norm)
  ultimately show ?thesis using j(1) by simp
qed

lemma round_to_pow2:
  assumes "0 < p"
  shows "round_to p (2 ^ k) = 2 ^ k"
proof -
  obtain p' where p': "p = Suc p'" using assms by (cases p) auto
  have "quantum p (2 ^ k) = 2 powi (int k - int p')"
    by (simp add: quantum_def binade_pow2 p')
  then have "(2::real) ^ k / quantum p (2 ^ k) = 2 powi (int p')"
    by (simp add: power_int_diff)
  then have "(2::real) ^ k / quantum p (2 ^ k) = of_int (2 ^ p')" by simp
  then show ?thesis by (intro round_to_exact) simp_all
qed

lemma binary32_pow2_31: "binary32 2147483648 = 2147483648"
  using round_to_pow2[of 24 31] by (simp add: binary32_def)

lemma binary32_pow2_22: "binary32 4194304 = 4194304"
  using binary32_nat[of 4194304] by simp

lemma binary64_pow2_31: "binary64 2147483648 = 2147483648"
  using binary64_nat[of 2147483648] by simp

lemma gas_index_stays_normal:
  assumes "raw \<noteq> 0" "- (2 ^ 31) \<le> raw" "raw < 2 ^ 31"
  defines "a \<equiv> int_to_float raw"
  defines "n \<equiv> float_div a ADC_MAX"
  defines "d \<equiv> double_mul n 300"
  shows "1 \<le> \<bar>a\<bar> \<and> \<bar>a\<bar> \<le> 2 ^ 31"
    and "1 / 2 ^ 10 \<le> \<bar>n\<bar> \<and> \<bar>n\<bar> \<le> 2 ^ 22"
    and "1 / 2 ^ 2 \<le> \<bar>d\<bar> \<and> \<bar>d\<bar> \<le> 2 ^ 31"
    and "1 / 2 ^ 2 \<le> \<bar>double_to_float d\<bar> \<and> \<bar>double_to_float d\<bar> \<le> 2 ^ 31"
proof -
  have r: "1 \<le> \<bar>real_of_int raw\<bar>" "\<bar>real_of_int raw\<bar> \<le> 2147483648"
    using assms(1-3) by (simp_all add: abs_if)
  have A: "1 \<le> \<bar>a\<bar> \<and> \<bar>a\<bar> \<le> 2147483648"
    unfolding a_def int_to_float_def
    by (rule binary32_abs_bounds[OF r binary32_1 binary32_pow2_31])
  then show "1 \<le> \<bar>a\<bar> \<and> \<bar>a\<bar> \<le> 2 ^ 31" by simp
  have "1 / 1024 \<le> \<bar>a / 1023\<bar>" "\<bar>a / 1023\<bar> \<le> 4194304" using A by simp_all
  then have N: "1 / 1024 \<le> \<bar>n\<bar> \<and> \<bar>n\<bar> \<le> 4194304"
    unfolding n_def float_div_def ADC_MAX_def
    by (rule binary32_abs_bounds[OF _ _ binary32_pow2_neg10 binary32_pow2_22])
  then show "1 / 2 ^ 10 \<le> \<bar>n\<bar> \<and> \<bar>n\<bar> \<le> 2 ^ 22" by simp
  have "1 / 4 \<le> \<bar>n * 300\<bar>" "\<bar>n * 300\<bar> \<le> 2147483648" using N by (simp_all add: abs_mult)
  then have D: "1 / 4 \<le> \<bar>d\<bar> \<and> \<bar>d\<bar> \<le> 2147483648"
    unfolding d_def double_mul_def
    by (rule binary64_abs_bounds[OF _ _ binary64_quarter binary64_pow2_31])
  then show "1 / 2 ^ 2 \<le> \<bar>d\<bar> \<and> \<bar>d\<bar> \<le> 2 ^ 31" by simp
  have "1 / 4 \<le> \<bar>d\<bar>" "\<bar>d\<bar> \<le> 2147483648" using D by simp_all
  then have "1 / 4 \<le> \<bar>double_to_float d\<bar> \<and> \<bar>double_to_float d\<bar> \<le> 2147483648"
    unfolding double_to_float_def
    by (rule binary32_abs_bounds[OF _ _ binary32_quarter binary32_pow2_31])
  then show "1 / 2 ^ 2 \<le> \<bar>double_to_float d\<bar> \<and> \<bar>double_to_float d\<bar> \<le> 2 ^ 31" by simp
qed

text \<open>Each rounding has relative error at most \<open>2\<^sup>-\<^sup>p\<close>; the four roundings of the gas index
  add up to less than \<open>2\<^sup>-\<^sup>2\<^sup>2\<close>.\<close>

lemma rne_error: "\<bar>of_int (rne y) - y\<bar> \<le> 1 / 2"
proof -
  have "of_int \<lfloor>y\<rfloor> \<le> y" "y < of_int \<lfloor>y\<rfloor> + 1" by linarith+
  then show ?thesis by (auto simp: rne_def Let_def)
qed

lemma round_to_error_pos:
  assumes "0 < x" "0 < p"
  shows "\<bar>round_to p x - x\<bar> \<le> x / 2 ^ p"
proof -
  define q where "q = quantum p x"
  have q: "0 < q" by (simp add: q_def quantum_pos)
  obtain p' where p': "p = Suc p'" using assms(2) by (cases p) auto
  have qe: "q = 2 powi (binade x - int p + 1)" using assms by (simp add: q_def quantum_def)
  have lo_q: "2 powi (binade x) = 2 ^ p' * q"
    by (simp add: qe p' power_int_diff power_int_add field_simps)
  have "2 ^ p' * q \<le> x" using binade_bounds[OF assms(1)] by (simp only: lo_q)
  then have half: "q / 2 \<le> x / 2 ^ p" using q by (simp add: p' field_simps)
  have "round_to p x - x = (of_int (rne (x / q)) - x / q) * q"
    using q by (simp add: round_to_pos[OF assms(1)] q_def[symmetric] field_simps)
  then have "\<bar>round_to p x - x\<bar> = \<bar>of_int (rne (x / q)) - x / q\<bar> * q"
    using q by (simp add: abs_mult)
  also have "\<dots> \<le> 1 / 2 * q" using rne_error[of "x / q"] q by (intro mult_right_mono) simp_all
  finally have "\<bar>round_to p x - x\<bar> \<le> q / 2" by simp
  then show ?thesis using half by linarith
qed

lemma round_to_error:
  assumes "0 < p"
  shows "\<bar>round_to p x - x\<bar> \<le> \<bar>x\<bar> / 2 ^ p"
proof -
  consider "0 < x" | "x = 0" | "x < 0" by linarith
  then show ?thesis
  proof cases
    case 1
    then show ?thesis using round_to_error_pos[OF 1 assms] by simp
  next
    case 2
    then show ?thesis by (simp add: round_to_zero)
  next
    case 3
    then have "0 < - x" by simp
    from round_to_error_pos[OF this assms] show ?thesis using 3
      by (simp add: round_to_minus)
  qed
qed

lemma rel_error_compose:
  fixes x y z :: real
  assumes "\<bar>y - x\<bar> \<le> \<bar>x\<bar> * a" "\<bar>z - y\<bar> \<le> \<bar>y\<bar> * b" "0 \<le> a" "0 \<le> b"
  shows "\<bar>z - x\<bar> \<le> \<bar>x\<bar> * (a + b + a * b)"
proof -
  have "\<bar>y\<bar> \<le> \<bar>x\<bar> + \<bar>y - x\<bar>" by simp
  then have "\<bar>y\<bar> \<le> \<bar>x\<bar> * (1 + a)" using assms(1) by (simp add: algebra_simps)
  then have "\<bar>y\<bar> * b \<le> \<bar>x\<bar> * (1 + a) * b" using assms(4) by (rule mult_right_mono)
  then have "\<bar>z - y\<bar> \<le> \<bar>x\<bar> * (1 + a) * b" using assms(2) by linarith
  moreover have "\<bar>z - x\<bar> \<le> \<bar>z - y\<bar> + \<bar>y - x\<bar>" by simp
  ultimately have "\<bar>z - x\<bar> \<le> \<bar>x\<bar> * (1 + a) * b + \<bar>x\<bar> * a" using assms(1) by linarith
  then show ?thesis by (simp add: algebra_simps)
qed

lemma binary32_error: "\<bar>binary32 x - x\<bar> \<le> \<bar>x\<bar> * (1 / 2 ^ 24)"
  using round_to_error[of 24 x] by (simp add: binary32_def)

lemma binary64_error: "\<bar>binary64 x - x\<bar> \<le> \<bar>x\<bar> * (1 / 2 ^ 53)"
  using round_to_error[of 53 x] by (simp add: binary64_def)

lemma scale_rel_error:
  fixes x y c a :: real
  assumes "\<bar>y - x\<bar> \<le> \<bar>x\<bar> * a"
  shows "\<bar>y * c - x * c\<bar> \<le> \<bar>x * c\<bar> * a"
proof -
  have "\<bar>y * c - x * c\<bar> = \<bar>y - x\<bar> * \<bar>c\<bar>" by (simp add: abs_mult[symmetric] algebra_simps)
  also have "\<dots> \<le> \<bar>x\<bar> * a * \<bar>c\<bar>" using assms by (intro mult_right_mono) simp_all
  finally show ?thesis by (simp add: abs_mult algebra_simps)
qed

lemma gas_index_linear_error:
  "\<bar>gas_index_linear raw - of_int raw / 1023 * 300\<bar> \<le> \<bar>of_int raw / 1023 * 300\<bar> / 2 ^ 22"
proof -
  define u :: real where "u = 1 / 2 ^ 24"
  define u' :: real where "u' = 1 / 2 ^ 53"
  define r :: real where "r = of_int raw"
  define a where "a = binary32 r"
  define n where "n = binary32 (a / 1023)"
  define d where "d = binary64 (n * 300)"
  have u: "0 \<le> u" "0 \<le> u'" by (simp_all add: u_def u'_def)
  have 1: "\<bar>a - r\<bar> \<le> \<bar>r\<bar> * u" unfolding a_def u_def by (rule binary32_error)
  have "\<bar>a * (1 / 1023) - r * (1 / 1023)\<bar> \<le> \<bar>r * (1 / 1023)\<bar> * u"
    by (rule scale_rel_error[OF 1])
  then have 2: "\<bar>a / 1023 - r / 1023\<bar> \<le> \<bar>r / 1023\<bar> * u" by simp
  have 3: "\<bar>n - a / 1023\<bar> \<le> \<bar>a / 1023\<bar> * u" unfolding n_def u_def by (rule binary32_error)
  define e1 where "e1 = u + u + u * u"
  have e1: "0 \<le> e1" using u by (simp add: e1_def)
  have 4: "\<bar>n - r / 1023\<bar> \<le> \<bar>r / 1023\<bar> * e1"
    unfolding e1_def by (rule rel_error_compose[OF 2 3 u(1) u(1)])
  have 5: "\<bar>n * 300 - r / 1023 * 300\<bar> \<le> \<bar>r / 1023 * 300\<bar> * e1"
    by (rule scale_rel_error[OF 4])
  have 6: "\<bar>d - n * 300\<bar> \<le> \<bar>n * 300\<bar> * u'" unfolding d_def u'_def by (rule binary64_error)
  define e2 where "e2 = e1 + u' + e1 * u'"
  have e2: "0 \<le> e2" using u e1 by (simp add: e2_def)
  have 7: "\<bar>d - r / 1023 * 300\<bar> \<le> \<bar>r / 1023 * 300\<bar> * e2"
    unfolding e2_def by (rule rel_error_compose[OF 5 6 e1 u(2)])
  have 8: "\<bar>binary32 d - d\<bar> \<le> \<bar>d\<bar> * u" unfolding u_def by (rule binary32_error)
  define e3 where "e3 = e2 + u + e2 * u"
  have 9: "\<bar>binary32 d - r / 1023 * 300\<bar> \<le> \<bar>r / 1023 * 300\<bar> * e3"
    unfolding e3_def by (rule rel_error_compose[OF 7 8 e2 u(1)])
  have "e3 \<le> 1 / 2 ^ 22" by (simp add: e3_def e2_def e1_def u_def u'_def)
  then have "\<bar>r / 1023 * 300\<bar> * e3 \<le> \<bar>r / 1023 * 300\<bar> * (1 / 2 ^ 22)"
    by (intro mult_left_mono) simp_all
  also have "\<dots> = \<bar>r / 1023 * 300\<bar> / 2 ^ 22" by (simp only: times_divide_eq_right mult_1_right)
  finally have "\<bar>binary32 d - r / 1023 * 300\<bar> \<le> \<bar>r / 1023 * 300\<bar> / 2 ^ 22"
    using 9 by (rule order_trans[rotated])
  moreover have "gas_index_linear raw = binary32 d"
    by (simp add: gas_index_linear_def double_to_float_def double_mul_def float_div_def
        int_to_float_def d_def n_def a_def r_def)
  ultimately show ?thesis by (simp only: r_def)
qed

lemma clamp_lipschitz: "\<bar>clamp x lo hi - clamp y lo hi\<bar> \<le> \<bar>x - y\<bar>"
  by (simp add: clamp_def max_def min_def)

text \<open>
  C1. For every integer \<open>raw\<close>, \<open>computeGasIndex raw\<close> is the specification's reference
  value: \<open>raw / 1023.0\<close>, times \<open>300.0\<close>, clamped to \<open>[0, 500]\<close>, computed with the
  sketch's \<open>float\<close> and \<open>double\<close> operations; it differs from the same formula in exact
  arithmetic by a relative error of at most \<open>2\<^sup>-\<^sup>2\<^sup>2\<close>. In particular
  \<open>computeGasIndex 0 = 0\<close>, \<open>computeGasIndex 1023 = 300\<close> and \<open>computeGasIndex 2000 = 500\<close>.
\<close>

theorem computeGasIndex_is_reference:
  "computeGasIndex raw = gas_index_reference raw
   \<and> (\<exists>v. computeGasIndex raw = Fin v
          \<and> \<bar>v - gas_index_exact raw\<bar> \<le> \<bar>of_int raw / 1023 * 300\<bar> / 2 ^ 22)
   \<and> computeGasIndex 0 = Fin 0
   \<and> computeGasIndex 1023 = Fin 300
   \<and> computeGasIndex 2000 = Fin 500"
proof -
  have ref: "computeGasIndex raw = gas_index_reference raw"
    by (simp add: computeGasIndex_clip gas_index_reference_def gas_index_linear_def clamp_def)
  have "\<bar>clamp (gas_index_linear raw) 0 500 - gas_index_exact raw\<bar>
      \<le> \<bar>gas_index_linear raw - of_int raw / 1023 * 300\<bar>"
    unfolding gas_index_exact_def by (rule clamp_lipschitz)
  then have "\<bar>clamp (gas_index_linear raw) 0 500 - gas_index_exact raw\<bar>
      \<le> \<bar>of_int raw / 1023 * 300\<bar> / 2 ^ 22"
    using gas_index_linear_error[of raw] by linarith
  moreover have "computeGasIndex raw = Fin (clamp (gas_index_linear raw) 0 500)"
    by (simp add: ref gas_index_reference_def gas_index_linear_def)
  ultimately have close: "\<exists>v. computeGasIndex raw = Fin v
          \<and> \<bar>v - gas_index_exact raw\<bar> \<le> \<bar>of_int raw / 1023 * 300\<bar> / 2 ^ 22"
    by blast
  have "computeGasIndex 0 = Fin 0"
    by (simp add: computeGasIndex_clip gas_index_linear_0)
  moreover have "computeGasIndex 1023 = Fin 300"
    by (simp add: computeGasIndex_clip gas_index_linear_1023)
  moreover have "computeGasIndex 2000 = Fin 500"
    using gas_index_linear_2000 by (simp add: computeGasIndex_clip)
  ultimately show ?thesis using ref close by blast
qed

text \<open>
  C6. On the ADC range \<open>[0, 1023]\<close> the gas index is non-decreasing and lies in
  \<open>[0, 300]\<close>; neither clamp bound is reached there, the result is the linear map itself.
\<close>

theorem computeGasIndex_monotone_in_domain:
  assumes "0 \<le> raw1" "raw1 \<le> raw2" "raw2 \<le> 1023"
  shows "float_le (computeGasIndex raw1) (computeGasIndex raw2)
         \<and> float_le (Fin 0) (computeGasIndex raw1) \<and> float_le (computeGasIndex raw1) (Fin 300)
         \<and> float_le (Fin 0) (computeGasIndex raw2) \<and> float_le (computeGasIndex raw2) (Fin 300)
         \<and> computeGasIndex raw1 = Fin (gas_index_linear raw1)
         \<and> computeGasIndex raw2 = Fin (gas_index_linear raw2)"
proof -
  have d1: "0 \<le> raw1" "raw1 \<le> 1023" and d2: "0 \<le> raw2" "raw2 \<le> 1023"
    using assms by simp_all
  show ?thesis
    using gas_index_linear_mono[OF assms(2)] gas_index_linear_range[OF d1]
      gas_index_linear_range[OF d2]
    by (simp add: computeGasIndex_in_domain[OF d1] computeGasIndex_in_domain[OF d2] float_le_def)
qed

theorem computeGasIndex_monotone_in_domain_witness:
  "(0::int) \<le> 100 \<and> (100::int) \<le> 512 \<and> (512::int) \<le> 1023
   \<and> float_le (computeGasIndex 100) (computeGasIndex 512)
   \<and> float_le (Fin 0) (computeGasIndex 100) \<and> float_le (computeGasIndex 100) (Fin 300)
   \<and> float_le (Fin 0) (computeGasIndex 512) \<and> float_le (computeGasIndex 512) (Fin 300)
   \<and> computeGasIndex 100 = Fin (gas_index_linear 100)
   \<and> computeGasIndex 512 = Fin (gas_index_linear 512)"
proof -
  have h: "(0::int) \<le> 100" "(100::int) \<le> 512" "(512::int) \<le> 1023" by simp_all
  from computeGasIndex_monotone_in_domain[OF h] show ?thesis using h by blast
qed

subsection \<open>Sampling\<close>

lemma int_to_float_exact:
  assumes "0 \<le> a" "a < 2 ^ 24"
  shows "int_to_float a = of_int a"
proof -
  have n: "nat a < 2 ^ 24" using assms by (simp add: nat_less_iff)
  have e: "real_of_int a = real (nat a)" using assms(1) by simp
  show ?thesis unfolding int_to_float_def e by (rule binary32_nat[OF n])
qed

lemma readMQ_cast_exact:
  assumes "0 \<le> a" "a < 2 ^ 24"
  shows "float_to_int (readMQ a) = a"
  using assms by (simp add: readMQ_def float_to_int_def int_to_float_exact)

lemma computeGasIndex_finite: "\<not> isnan (computeGasIndex raw)"
  by (simp add: computeGasIndex_clip isnan_def)

lemma handleClient_frame:
  "lastSensorMillis (handleClient s inp) = lastSensorMillis s"
  "lastOLEDMillis (handleClient s inp) = lastOLEDMillis s"
  "lastTemp (handleClient s inp) = lastTemp s"
  "lastHum (handleClient s inp) = lastHum s"
  "lastMQRaw (handleClient s inp) = lastMQRaw s"
  "lastGasIndex (handleClient s inp) = lastGasIndex s"
  by (simp_all add: handleClient_def handleRoot_def handleData_def split: option.split)

lemma sample_fields:
  "lastSensorMillis (sample s now inp) = now"
  "lastOLEDMillis (sample s now inp) = lastOLEDMillis s"
  "lastTemp (sample s now inp) = (if isnan (dht_temperature inp) then lastTemp s else dht_temperature inp)"
  "lastHum (sample s now inp) = (if isnan (dht_humidity inp) then lastHum s else dht_humidity inp)"
  "lastMQRaw (sample s now inp) = float_to_int (readMQ (analog inp))"
  "lastGasIndex (sample s now inp) = computeGasIndex (float_to_int (readMQ (analog inp)))"
  by (simp_all add: sample_def Let_def)

lemma repaint_fields:
  "lastSensorMillis (repaint s now inp) = lastSensorMillis s"
  "lastOLEDMillis (repaint s now inp) = now"
  "lastTemp (repaint s now inp) = lastTemp s"
  "lastHum (repaint s now inp) = lastHum s"
  "lastMQRaw (repaint s now inp) = lastMQRaw s"
  "lastGasIndex (repaint s now inp) = lastGasIndex s"
  by (simp_all add: repaint_def Let_def)

lemma loop_idle:
  assumes "\<not> sensor_due (millis (clock inp)) (lastSensorMillis s)"
  shows "lastSensorMillis (loop s inp) = lastSensorMillis s"
    and "lastTemp (loop s inp) = lastTemp s"
    and "lastHum (loop s inp) = lastHum s"
    and "lastMQRaw (loop s inp) = lastMQRaw s"
    and "lastGasIndex (loop s inp) = lastGasIndex s"
  using assms by (simp_all add: loop_def Let_def handleClient_frame repaint_fields)

lemma loop_fire:
  assumes "sensor_due (millis (clock inp)) (lastSensorMillis s)"
  shows "lastSensorMillis (loop s inp) = millis (clock inp)"
    and "lastTemp (loop s inp) = (if isnan (dht_temperature inp) then lastTemp s else dht_temperature inp)"
    and "lastHum (loop s inp) = (if isnan (dht_humidity inp) then lastHum s else dht_humidity inp)"
    and "lastMQRaw (loop s inp) = float_to_int (readMQ (analog inp))"
    and "lastGasIndex (loop s inp) = computeGasIndex (float_to_int (readMQ (analog inp)))"
  using assms by (simp_all add: loop_def Let_def handleClient_frame repaint_fields sample_fields)

lemma loop_gas_invariant:
  assumes "lastGasIndex s = computeGasIndex (lastMQRaw s)"
  shows "lastGasIndex (loop s inp) = computeGasIndex (lastMQRaw (loop s inp))"
proof (cases "sensor_due (millis (clock inp)) (lastSensorMillis s)")
  case True
  then show ?thesis by (simp add: loop_fire)
next
  case False
  then show ?thesis using assms by (simp add: loop_idle)
qed

lemma run_gas_invariant:
  "lastGasIndex s = computeGasIndex (lastMQRaw s) \<Longrightarrow>
   lastGasIndex (run s ins) = computeGasIndex (lastMQRaw (run s ins))"
  by (induction ins arbitrary: s) (simp_all add: loop_gas_invariant)

lemma boot_gas_invariant: "lastGasIndex boot = computeGasIndex (lastMQRaw boot)"
  by (simp add: boot_def computeGasIndex_clip gas_index_linear_0)

lemma loop_temp:
  "lastTemp (loop s inp) =
     (if sensor_due (millis (clock inp)) (lastSensorMillis s) \<and> \<not> isnan (dht_temperature inp)
      then dht_temperature inp else lastTemp s)"
  by (cases "sensor_due (millis (clock inp)) (lastSensorMillis s)")
    (simp_all add: loop_fire loop_idle)

lemma loop_hum:
  "lastHum (loop s inp) =
     (if sensor_due (millis (clock inp)) (lastSensorMillis s) \<and> \<not> isnan (dht_humidity inp)
      then dht_humidity inp else lastHum s)"
  by (cases "sensor_due (millis (clock inp)) (lastSensorMillis s)")
    (simp_all add: loop_fire loop_idle)

lemma run_temp:
  "lastTemp (run s ins) =
     (if temps_recorded s ins = [] then lastTemp s else last (temps_recorded s ins))"
  by (induction ins arbitrary: s) (simp_all add: loop_temp)

lemma run_hum:
  "lastHum (run s ins) =
     (if hums_recorded s ins = [] then lastHum s else last (hums_recorded s ins))"
  by (induction ins arbitrary: s) (simp_all add: loop_hum)

lemma temps_recorded_valid: "NaN \<notin> set (temps_recorded s ins)"
  by (induction ins arbitrary: s) (auto simp: isnan_def)

lemma hums_recorded_valid: "NaN \<notin> set (hums_recorded s ins)"
  by (induction ins arbitrary: s) (auto simp: isnan_def)

subsection \<open>The clock\<close>

lemma millis_diff:
  assumes "t0 \<le> t"
  shows "unat (millis t - millis t0) = (t - t0) mod 2 ^ 32"
proof -
  have "millis t - millis t0 = of_nat (t - t0)"
    using assms by (simp add: millis_def of_nat_diff)
  then show ?thesis by (simp add: unat_of_nat)
qed

lemma sensor_due_elapsed:
  assumes "t0 \<le> t"
  shows "sensor_due (millis t) (millis t0) \<longleftrightarrow> 2000 \<le> (t - t0) mod 2 ^ 32"
  by (simp add: sensor_due_def SENSOR_INTERVAL_def word_le_nat_alt millis_diff[OF assms])


lemma fire_gap:
  assumes "t0 \<le> t" "sensor_due (millis t) (millis t0)"
  shows "t0 + 2000 \<le> t"
proof -
  have "2000 \<le> (t - t0) mod 2 ^ 32" using assms by (simp add: sensor_due_elapsed)
  also have "\<dots> \<le> t - t0" by simp
  finally show ?thesis using assms(1) by simp
qed

lemma fire_times_spaced:
  "lastSensorMillis s = millis t0 \<Longrightarrow> sorted (t0 # map clock ins) \<Longrightarrow>
   spaced 2000 (t0 # fire_times s ins)"
proof (induction ins arbitrary: s t0)
  case Nil
  then show ?case by simp
next
  case (Cons inp rest)
  have le: "t0 \<le> clock inp" using Cons.prems(2) by simp
  show ?case
  proof (cases "sensor_due (millis (clock inp)) (lastSensorMillis s)")
    case True
    have gap: "t0 + 2000 \<le> clock inp" using fire_gap[OF le] True Cons.prems(1) by simp
    have "spaced 2000 (clock inp # fire_times (loop s inp) rest)"
      using Cons.prems(2) by (intro Cons.IH) (simp_all add: loop_fire[OF True])
    then show ?thesis using True gap by simp
  next
    case False
    have "sorted (t0 # map clock rest)" using Cons.prems(2) by auto
    then have "spaced 2000 (t0 # fire_times (loop s inp) rest)"
      using Cons.prems(1) by (intro Cons.IH) (simp_all add: loop_idle[OF False])
    then show ?thesis using False by simp
  qed
qed

subsection \<open>Claims about the scheduler loop\<close>

lemma loop_stamp:
  "lastSensorMillis (loop s inp) =
     (if sensor_due (millis (clock inp)) (lastSensorMillis s) then millis (clock inp)
      else lastSensorMillis s)"
  by (simp add: loop_fire loop_idle)

lemma run_stamp:
  "lastSensorMillis (run s ins) =
     (if fire_times s ins = [] then lastSensorMillis s else millis (last (fire_times s ins)))"
  by (induction ins arbitrary: s) (simp_all add: loop_stamp)

text \<open>
  C2. In a pass in which the sensor interval has elapsed, a NaN temperature (humidity)
  reading leaves \<open>lastTemp\<close> (\<open>lastHum\<close>) as it was and a valid reading overwrites it;
  each field looks at its own reading only. Over any sequence of passes each field
  therefore holds the last valid reading taken, or its old value if there was none.
\<close>

theorem invalid_reading_keeps_stored_value:
  "(sensor_due (millis (clock inp)) (lastSensorMillis s) \<longrightarrow>
      lastTemp (loop s inp) =
        (if isnan (dht_temperature inp) then lastTemp s else dht_temperature inp)
      \<and> lastHum (loop s inp) =
        (if isnan (dht_humidity inp) then lastHum s else dht_humidity inp))
   \<and> lastTemp (run s ins) =
       (if temps_recorded s ins = [] then lastTemp s else last (temps_recorded s ins))
   \<and> lastHum (run s ins) =
       (if hums_recorded s ins = [] then lastHum s else last (hums_recorded s ins))"
  using loop_fire(2,3)[of inp s] run_temp[of s ins] run_hum[of s ins] by simp

theorem invalid_reading_keeps_stored_value_witness:
  "sensor_due (millis (clock ((idle_pass 2000)\<lparr>dht_humidity := Fin 55\<rparr>)))
     (lastSensorMillis (boot\<lparr>lastTemp := Fin 21, lastHum := Fin 40\<rparr>))
   \<and> lastTemp (loop (boot\<lparr>lastTemp := Fin 21, lastHum := Fin 40\<rparr>)
                  ((idle_pass 2000)\<lparr>dht_humidity := Fin 55\<rparr>)) = Fin 21
   \<and> lastHum (loop (boot\<lparr>lastTemp := Fin 21, lastHum := Fin 40\<rparr>)
                  ((idle_pass 2000)\<lparr>dht_humidity := Fin 55\<rparr>)) = Fin 55
   \<and> lastTemp (run boot [(idle_pass 2000)\<lparr>dht_temperature := Fin 21\<rparr>, idle_pass 4000]) = Fin 21"
proof -
  let ?s = "boot\<lparr>lastTemp := Fin 21, lastHum := Fin 40\<rparr>"
  let ?i = "(idle_pass 2000)\<lparr>dht_humidity := Fin 55\<rparr>"
  let ?ins = "[(idle_pass 2000)\<lparr>dht_temperature := Fin 21\<rparr>, idle_pass 4000]"
  have h: "sensor_due (millis (clock ?i)) (lastSensorMillis ?s)"
    by (simp add: idle_pass_def boot_def millis_def sensor_due_def SENSOR_INTERVAL_def)
  have d: "sensor_due (millis 2000) 0" "sensor_due (millis 4000) (millis 2000)"
    by (simp_all add: sensor_due_def millis_def SENSOR_INTERVAL_def)
  have r: "temps_recorded boot ?ins = [Fin 21]"
    using d by (simp add: loop_stamp boot_def idle_pass_def isnan_def)
  note t = invalid_reading_keeps_stored_value[of ?i ?s ?ins]
  note t' = invalid_reading_keeps_stored_value[of ?i boot ?ins]
  from t h have "lastTemp (loop ?s ?i) = (if isnan (dht_temperature ?i) then lastTemp ?s else dht_temperature ?i)"
    "lastHum (loop ?s ?i) = (if isnan (dht_humidity ?i) then lastHum ?s else dht_humidity ?i)"
    by blast+
  then have 1: "lastTemp (loop ?s ?i) = Fin 21" and 2: "lastHum (loop ?s ?i) = Fin 55"
    by (simp_all add: idle_pass_def boot_def isnan_def)
  from t' have "lastTemp (run boot ?ins) =
       (if temps_recorded boot ?ins = [] then lastTemp boot else last (temps_recorded boot ?ins))"
    by blast
  then have 3: "lastTemp (run boot ?ins) = Fin 21" unfolding r by simp
  show ?thesis using h 1 2 3 by blast
qed

text \<open>
  C3. A pass that samples the sensors stores the new MQ-135 sample in \<open>lastMQRaw\<close>
  whatever its value (for an ADC value in \<open>[0, 1023]\<close> the conversion to \<open>float\<close> and back
  is exact), and stores \<open>computeGasIndex\<close> of that sample in \<open>lastGasIndex\<close>. In every
  state the loop reaches from power-up, \<open>lastGasIndex\<close> is \<open>computeGasIndex\<close> of
  \<open>lastMQRaw\<close> and of nothing else.
\<close>

theorem gas_index_follows_latest_sample:
  "(sensor_due (millis (clock inp)) (lastSensorMillis s) \<longrightarrow>
      lastMQRaw (loop s inp) = float_to_int (readMQ (analog inp))
      \<and> (0 \<le> analog inp \<and> analog inp \<le> 1023 \<longrightarrow> lastMQRaw (loop s inp) = analog inp)
      \<and> lastGasIndex (loop s inp) = computeGasIndex (lastMQRaw (loop s inp)))
   \<and> lastGasIndex (run boot ins) = computeGasIndex (lastMQRaw (run boot ins))"
proof -
  have "lastMQRaw (loop s inp) = float_to_int (readMQ (analog inp))
      \<and> (0 \<le> analog inp \<and> analog inp \<le> 1023 \<longrightarrow> lastMQRaw (loop s inp) = analog inp)
      \<and> lastGasIndex (loop s inp) = computeGasIndex (lastMQRaw (loop s inp))"
    if due: "sensor_due (millis (clock inp)) (lastSensorMillis s)"
  proof -
    have "float_to_int (readMQ (analog inp)) = analog inp"
      if "0 \<le> analog inp" "analog inp \<le> 1023"
      using that by (intro readMQ_cast_exact) simp_all
    then show ?thesis by (simp add: loop_fire[OF due])
  qed
  moreover have "lastGasIndex (run boot ins) = computeGasIndex (lastMQRaw (run boot ins))"
    by (rule run_gas_invariant[OF boot_gas_invariant])
  ultimately show ?thesis by blast
qed

theorem gas_index_follows_latest_sample_witness:
  "sensor_due (millis (clock ((idle_pass 2000)\<lparr>analog := 512\<rparr>))) (lastSensorMillis boot)
   \<and> (0::int) \<le> 512 \<and> (512::int) \<le> 1023
   \<and> lastMQRaw (loop boot ((idle_pass 2000)\<lparr>analog := 512\<rparr>)) = 512
   \<and> lastGasIndex (loop boot ((idle_pass 2000)\<lparr>analog := 512\<rparr>)) = computeGasIndex 512
   \<and> lastGasIndex (run boot [(idle_pass 2000)\<lparr>analog := 512\<rparr>])
       = computeGasIndex (lastMQRaw (run boot [(idle_pass 2000)\<lparr>analog := 512\<rparr>]))"
proof -
  let ?i = "(idle_pass 2000)\<lparr>analog := 512\<rparr>"
  have h: "sensor_due (millis (clock ?i)) (lastSensorMillis boot)"
    by (simp add: idle_pass_def boot_def millis_def sensor_due_def SENSOR_INTERVAL_def)
  have a: "0 \<le> analog ?i \<and> analog ?i \<le> 1023" by simp
  note t = gas_index_follows_latest_sample[of ?i boot "[?i]"]
  from t h a have 1: "lastMQRaw (loop boot ?i) = analog ?i" by blast
  from t h have 2: "lastGasIndex (loop boot ?i) = computeGasIndex (lastMQRaw (loop boot ?i))"
    by blast
  from t have 3: "lastGasIndex (run boot [?i]) = computeGasIndex (lastMQRaw (run boot [?i]))"
    by blast
  have 4: "lastMQRaw (loop boot ?i) = 512" using 1 by simp
  show ?thesis using h 2 3 4 by simp
qed

text \<open>
  C4. The sensors are sampled only in a pass in which \<open>now - lastSensorMillis\<close> is at least
  \<open>SENSOR_INTERVAL\<close> = 2000, and that pass stamps \<open>lastSensorMillis\<close> with \<open>now\<close>; any other
  pass leaves the stamp and the four sensor fields alone. With a clock that does not run
  backwards, two consecutive samplings (and power-up and the first sampling) are at
  least 2000 ms of true time apart.
\<close>

theorem sensor_sampled_at_most_once_per_interval:
  assumes "sorted (map clock ins)"
  shows "spaced 2000 (0 # fire_times boot ins)
         \<and> unat SENSOR_INTERVAL = 2000
         \<and> lastSensorMillis (run boot ins) = millis (last (0 # fire_times boot ins))
         \<and> (sensor_due now prev \<longleftrightarrow> SENSOR_INTERVAL \<le> now - prev)
         \<and> lastSensorMillis (loop s inp) =
             (if sensor_due (millis (clock inp)) (lastSensorMillis s) then millis (clock inp)
              else lastSensorMillis s)
         \<and> (if sensor_due (millis (clock inp)) (lastSensorMillis s)
            then lastMQRaw (loop s inp) = float_to_int (readMQ (analog inp))
            else lastTemp (loop s inp) = lastTemp s \<and> lastHum (loop s inp) = lastHum s
               \<and> lastMQRaw (loop s inp) = lastMQRaw s
               \<and> lastGasIndex (loop s inp) = lastGasIndex s)"
proof -
  have "lastSensorMillis boot = millis 0" by (simp add: boot_def millis_def)
  moreover have "sorted (0 # map clock ins)" using assms by simp
  ultimately have "spaced 2000 (0 # fire_times boot ins)" by (rule fire_times_spaced)
  moreover have "unat SENSOR_INTERVAL = 2000" by (simp add: SENSOR_INTERVAL_def)
  moreover have "lastSensorMillis (run boot ins) = millis (last (0 # fire_times boot ins))"
    by (simp add: run_stamp boot_def millis_def)
  moreover have "sensor_due now prev \<longleftrightarrow> SENSOR_INTERVAL \<le> now - prev"
    by (simp add: sensor_due_def)
  moreover have "if sensor_due (millis (clock inp)) (lastSensorMillis s)
            then lastMQRaw (loop s inp) = float_to_int (readMQ (analog inp))
            else lastTemp (loop s inp) = lastTemp s \<and> lastHum (loop s inp) = lastHum s
               \<and> lastMQRaw (loop s inp) = lastMQRaw s
               \<and> lastGasIndex (loop s inp) = lastGasIndex s"
    by (simp add: loop_fire loop_idle)
  ultimately show ?thesis using loop_stamp[of s inp] by blast
qed

theorem sensor_sampled_at_most_once_per_interval_witness:
  "sorted (map clock [idle_pass 500, idle_pass 2000, idle_pass 3000, idle_pass 4100])
   \<and> fire_times boot [idle_pass 500, idle_pass 2000, idle_pass 3000, idle_pass 4100] = [2000, 4100]
   \<and> spaced 2000 (0 # fire_times boot [idle_pass 500, idle_pass 2000, idle_pass 3000, idle_pass 4100])"
proof -
  have h: "sorted (map clock [idle_pass 500, idle_pass 2000, idle_pass 3000, idle_pass 4100])"
    by (simp add: idle_pass_def)
  have f: "fire_times boot [idle_pass 500, idle_pass 2000, idle_pass 3000, idle_pass 4100] = [2000, 4100]"
    by (simp add: loop_stamp sensor_due_def SENSOR_INTERVAL_def millis_def boot_def idle_pass_def)
  from sensor_sampled_at_most_once_per_interval[OF h] show ?thesis using h f by blast
qed

text \<open>
  C7. Neither HTTP handler writes a global: after \<open>handleRoot\<close> and after \<open>handleData\<close>
  the six state variables hold what they held before; the handler only sends one response
  built from them.
\<close>

theorem handlers_do_not_write_state:
  "lastTemp (handleRoot s ip) = lastTemp s \<and> lastHum (handleRoot s ip) = lastHum s
   \<and> lastMQRaw (handleRoot s ip) = lastMQRaw s \<and> lastGasIndex (handleRoot s ip) = lastGasIndex s
   \<and> lastSensorMillis (handleRoot s ip) = lastSensorMillis s
   \<and> lastOLEDMillis (handleRoot s ip) = lastOLEDMillis s
   \<and> out (handleRoot s ip) = out s @ [HttpSend 200 ''text/html'' (root_html s ip)]
   \<and> lastTemp (handleData s now) = lastTemp s \<and> lastHum (handleData s now) = lastHum s
   \<and> lastMQRaw (handleData s now) = lastMQRaw s \<and> lastGasIndex (handleData s now) = lastGasIndex s
   \<and> lastSensorMillis (handleData s now) = lastSensorMillis s
   \<and> lastOLEDMillis (handleData s now) = lastOLEDMillis s
   \<and> out (handleData s now) = out s @ [HttpSend 200 ''application/json'' (data_json s now)]"
  by (simp add: handleRoot_def handleData_def)

text \<open>
  C8. \<open>startAP\<close> always starts the access point, with the SSID derived from the chip id
  and the configured channel: open (no passphrase) when the password is shorter than 8
  characters, with the password otherwise. The configured password has 11 characters.
\<close>

theorem startAP_short_password_opens_network:
  "startAP chip_id password channel =
     [Mode_WIFI_AP,
      SoftAP (ap_ssid chip_id) (if length password < 8 then None else Some password) channel]
   \<and> startAP chip_id ap_password ap_channel =
     [Mode_WIFI_AP, SoftAP (ap_ssid chip_id) (Some ''change_me01'') 6]"
  by (simp add: startAP_def ap_password_def ap_channel_def)



subsection \<open>Printed numbers\<close>

lemma upt_0_2: "[0..<2] = [0, Suc 0]"
  by (simp add: upt_rec)

lemma digit_char_is_digit:
  assumes "d < 10"
  shows "is_digit (digit_char d)"
proof -
  have "d \<in> {0, 1, 2, 3, 4, 5, 6, 7, 8, 9}" using assms by auto
  then show ?thesis by (auto simp: is_digit_def digit_char_def)
qed

lemma minus_not_digit: "\<not> is_digit (CHR ''-'')" and point_not_digit: "\<not> is_digit (CHR ''.'')"
  by (simp_all add: is_digit_def)

lemma digits_base_10_digits: "list_all is_digit (digits_base 10 n)"
proof (induction n rule: less_induct)
  case (less n)
  show ?case
  proof (cases "n < 10")
    case True
    then show ?thesis by (simp add: digits_base.simps[of 10 n] digit_char_is_digit)
  next
    case False
    then have "n div 10 < n" by simp
    then have "list_all is_digit (digits_base 10 (n div 10))" by (rule less.IH)
    then show ?thesis using False by (simp add: digits_base.simps[of 10 n] digit_char_is_digit)
  qed
qed

lemma digits_base_10_nonempty: "digits_base 10 n \<noteq> []"
  by (simp add: digits_base.simps[of 10 n])

lemma signed_digits_shape:
  assumes "w \<noteq> []" "list_all is_digit w" "\<not> is_digit p" "sign = ''-'' \<or> sign = []"
  shows "(case (sign @ w @ p # r) of [] \<Rightarrow> [] | c # q \<Rightarrow> if c = CHR ''-'' then q else sign @ w @ p # r)
           = w @ p # r"
proof -
  obtain c w' where w: "w = c # w'" using assms(1) by (cases w) auto
  then have "is_digit c" using assms(2) by simp
  then have "c \<noteq> CHR ''-''" using minus_not_digit by auto
  then show ?thesis using assms(4) w by auto
qed

lemma takeWhile_digits:
  assumes "list_all is_digit w" "\<not> is_digit p"
  shows "takeWhile is_digit (w @ p # r) = w" and "dropWhile is_digit (w @ p # r) = p # r"
  using assms by (simp_all add: list_all_iff takeWhile_append2 dropWhile_append2)

lemma String_float_2_shape: "is_two_decimals (String_float (Fin v) 2)"
proof -
  define m where "m = \<bar>v\<bar> + 1 / (2 * 10 ^ 2)"
  define w where "w = digits_base 10 (nat \<lfloor>m\<rfloor>)"
  define a where "a = digit_char (nat (\<lfloor>m * 10 ^ Suc 0\<rfloor> mod 10))"
  define b where "b = digit_char (nat (\<lfloor>m * 10 ^ Suc (Suc 0)\<rfloor> mod 10))"
  define sign where "sign = (if v < 0 then ''-'' else [])"
  have w: "w \<noteq> []" "list_all is_digit w"
    by (simp_all add: w_def digits_base_10_nonempty digits_base_10_digits)
  have ab: "is_digit a" "is_digit b"
    by (simp_all add: a_def b_def digit_char_is_digit nat_less_iff)
  have sg: "sign = ''-'' \<or> sign = []" by (simp add: sign_def)
  have "dtostrf v 4 2 = replicate (4 - length (sign @ w @ CHR ''.'' # [a, b])) (CHR '' '')
      @ sign @ w @ CHR ''.'' # [a, b]"
    by (simp add: dtostrf_def Let_def upt_0_2 m_def w_def a_def b_def sign_def)
  moreover have "4 \<le> length (sign @ w @ CHR ''.'' # [a, b])"
    using w(1) by (cases w) simp_all
  ultimately have body: "String_float (Fin v) 2 = sign @ w @ CHR ''.'' # [a, b]"
    by (simp add: String_float_def)
  show ?thesis
    unfolding is_two_decimals_def body Let_def
      signed_digits_shape[OF w point_not_digit sg]
      takeWhile_digits[OF w(2) point_not_digit]
    using w(1) ab by simp
qed

lemma String_int_shape: "is_integer (String_int n)"
proof -
  define w where "w = digits_base 10 (nat \<bar>n\<bar>)"
  have w: "w \<noteq> []" "list_all is_digit w"
    by (simp_all add: w_def digits_base_10_nonempty digits_base_10_digits)
  obtain c w' where cw: "w = c # w'" using w(1) by (cases w) auto
  then have "is_digit c" using w(2) by simp
  then have c: "c \<noteq> CHR ''-''" using minus_not_digit by auto
  show ?thesis
  proof (cases "n < 0")
    case True
    then have "String_int n = CHR ''-'' # w" by (simp add: String_int_def w_def)
    then show ?thesis using w by (simp add: is_integer_def)
  next
    case False
    then have "String_int n = w" by (simp add: String_int_def w_def)
    then show ?thesis using w c cw by (simp add: is_integer_def)
  qed
qed

subsection \<open>The JSON snapshot\<close>

lemma data_json_spec:
  "data_json s now = data_body_spec (valid_reading (lastTemp s)) (valid_reading (lastHum s))
     (lastMQRaw s) (lastGasIndex s) now"
  by (cases "lastTemp s"; cases "lastHum s")
    (simp_all add: data_json_def data_body_spec_def valid_reading_def json_number_or_null_def
      isnan_def)

lemma data_json_fields:
  assumes "lastTemp s' = lastTemp s" "lastHum s' = lastHum s" "lastMQRaw s' = lastMQRaw s"
    "lastGasIndex s' = lastGasIndex s"
  shows "data_json s' now = data_json s now"
  using assms by (simp add: data_json_def)

lemma run_without_sample:
  assumes "fire_times s ins = []"
  shows "lastTemp (run s ins) = lastTemp s \<and> lastHum (run s ins) = lastHum s
         \<and> lastMQRaw (run s ins) = lastMQRaw s \<and> lastGasIndex (run s ins) = lastGasIndex s"
  using assms
proof (induction ins arbitrary: s)
  case Nil
  then show ?case by simp
next
  case (Cons inp rest)
  have idle: "\<not> sensor_due (millis (clock inp)) (lastSensorMillis s)"
    using Cons.prems by (auto split: if_splits)
  have "fire_times (loop s inp) rest = []" using Cons.prems idle by simp
  from Cons.IH[OF this] show ?case
    unfolding run.simps loop_idle(2-5)[OF idle] .
qed

lemma run_gas_finite: "\<not> isnan (lastGasIndex (run boot ins))"
  using run_gas_invariant[OF boot_gas_invariant, of ins] by (simp add: computeGasIndex_finite)

lemma run_gas_two_decimals: "is_two_decimals (String_float (lastGasIndex (run boot ins)) 2)"
proof (cases "lastGasIndex (run boot ins)")
  case NaN
  then show ?thesis using run_gas_finite[of ins] by (simp add: isnan_def)
next
  case (Fin v)
  then show ?thesis by (simp add: String_float_2_shape)
qed

lemma binary32_150_15: "binary32 (3003 / 20) = 4920115 / 32768"
  by (simp add: binary32_def) code_simp

lemma binary32_25_5: "binary32 (51 / 2) = 51 / 2"
  by (simp add: binary32_def) code_simp

text \<open>
  C5. In every state the body sent by the \<open>/data\<close> handler is the JSON object with the
  keys \<open>temperature\<close>, \<open>humidity\<close>, \<open>mq_raw\<close>, \<open>aq_index\<close>, \<open>time_ms\<close> in this order; a
  temperature or humidity that holds a reading is printed with two decimals, one that
  holds none is \<open>null\<close>; \<open>mq_raw\<close> is a decimal integer and, in every state reached
  from power-up, \<open>aq_index\<close> a number with two decimals. A field holds no reading exactly
  as long as no valid reading has been recorded since power-up, and the last valid one
  afterwards. With no temperature,
  humidity 25.5, raw value 512 and index 150.15 the body is
  \<open>{"temperature":null,"humidity":25.50,"mq_raw":512,"aq_index":150.15,"time_ms":<tick>}\<close>,
  for the exact values and for the \<open>float\<close>s nearest to them.
\<close>

theorem data_body_is_json_snapshot:
  \<open>data_json s now =
      data_body_spec (valid_reading (lastTemp s)) (valid_reading (lastHum s))
        (lastMQRaw s) (lastGasIndex s) now
   \<and> out (handleData s now) = out s @ [HttpSend 200 ''application/json'' (data_json s now)]
   \<and> is_two_decimals (String_float (Fin v) 2)
   \<and> is_integer (String_int (lastMQRaw s))
   \<and> is_two_decimals (String_float (lastGasIndex (run boot ins)) 2)
   \<and> lastTemp (run boot ins) =
       (if temps_recorded boot ins = [] then NaN else last (temps_recorded boot ins))
   \<and> lastHum (run boot ins) =
       (if hums_recorded boot ins = [] then NaN else last (hums_recorded boot ins))
   \<and> NaN \<notin> set (temps_recorded boot ins) \<and> NaN \<notin> set (hums_recorded boot ins)
   \<and> data_json (boot\<lparr>lastHum := Fin 25.5, lastMQRaw := 512, lastGasIndex := Fin 150.15\<rparr>) now =
       ''{"temperature":null,"humidity":25.50,"mq_raw":512,"aq_index":150.15,"time_ms":''
       @ String_ulong now @ ''}''
   \<and> data_json (boot\<lparr>lastHum := Fin (binary32 25.5), lastMQRaw := 512,
                       lastGasIndex := Fin (binary32 150.15)\<rparr>) now =
       ''{"temperature":null,"humidity":25.50,"mq_raw":512,"aq_index":150.15,"time_ms":''
       @ String_ulong now @ ''}''\<close>
proof -
  have \<open>data_json (boot\<lparr>lastHum := Fin 25.5, lastMQRaw := 512, lastGasIndex := Fin 150.15\<rparr>) now =
       ''{"temperature":null,"humidity":25.50,"mq_raw":512,"aq_index":150.15,"time_ms":''
       @ String_ulong now @ ''}''\<close>
    by (simp add: data_json_def boot_def isnan_def String_float_def dtostrf_def digit_char_def
        Let_def upt_0_2 String_int_def digits_base.simps)
  moreover have \<open>data_json (boot\<lparr>lastHum := Fin (binary32 25.5), lastMQRaw := 512,
                       lastGasIndex := Fin (binary32 150.15)\<rparr>) now =
       ''{"temperature":null,"humidity":25.50,"mq_raw":512,"aq_index":150.15,"time_ms":''
       @ String_ulong now @ ''}''\<close>
    by (simp add: data_json_def boot_def isnan_def String_float_def dtostrf_def digit_char_def
        Let_def upt_0_2 String_int_def digits_base.simps binary32_150_15 binary32_25_5)
  moreover have "lastTemp (run boot ins) =
       (if temps_recorded boot ins = [] then NaN else last (temps_recorded boot ins))"
    by (simp add: run_temp boot_def)
  moreover have "lastHum (run boot ins) =
       (if hums_recorded boot ins = [] then NaN else last (hums_recorded boot ins))"
    by (simp add: run_hum boot_def)
  moreover have "out (handleData s now) = out s @ [HttpSend 200 ''application/json'' (data_json s now)]"
    by (simp add: handleData_def)
  ultimately show ?thesis
    using data_json_spec[of s now] String_float_2_shape[of v] temps_recorded_valid[of boot ins]
      hums_recorded_valid[of boot ins] String_int_shape[of "lastMQRaw s"]
      run_gas_two_decimals[of ins]
    by blast
qed

theorem data_body_is_json_snapshot_witness:
  \<open>data_json (boot\<lparr>lastHum := Fin 25.5, lastMQRaw := 512, lastGasIndex := Fin 150.15\<rparr>) 12345 =
     ''{"temperature":null,"humidity":25.50,"mq_raw":512,"aq_index":150.15,"time_ms":12345}''
   \<and> lastTemp (run boot [(idle_pass 2000)\<lparr>dht_temperature := Fin 21\<rparr>, idle_pass 4000]) = Fin 21
   \<and> lastHum (run boot [(idle_pass 2000)\<lparr>dht_temperature := Fin 21\<rparr>, idle_pass 4000]) = NaN\<close>
proof -
  let ?ins = "[(idle_pass 2000)\<lparr>dht_temperature := Fin 21\<rparr>, idle_pass 4000]"
  note t = data_body_is_json_snapshot[of boot 12345 0 ?ins]
  have d: "sensor_due (millis 2000) 0" "sensor_due (millis 4000) (millis 2000)"
    by (simp_all add: sensor_due_def millis_def SENSOR_INTERVAL_def)
  have r: "temps_recorded boot ?ins = [Fin 21]" "hums_recorded boot ?ins = []"
    using d by (simp_all add: loop_stamp boot_def idle_pass_def isnan_def)
  have u: "String_ulong 12345 = ''12345''"
    by (simp add: String_ulong_def digit_char_def digits_base.simps)
  from t show ?thesis unfolding r u by simp
qed

subsection \<open>Serving \<open>/data\<close>\<close>

lemma handleClient_data:
  "request inp = Some ''/data'' \<Longrightarrow> handleClient s inp = handleData s (millis (request_clock inp))"
  by (simp add: handleClient_def)

lemma sample_out:
  "out (sample s now inp) = out s @ [SerialPrintf (lastTemp (sample s now inp))
     (lastHum (sample s now inp)) (lastMQRaw (sample s now inp)) (lastGasIndex (sample s now inp))]"
  by (simp add: sample_def Let_def)

lemma repaint_out: "\<exists>rest. out (repaint s now inp) = out s @ rest"
  by (simp add: repaint_def Let_def)

lemma loop_out: "\<exists>rest. out (loop s inp) = out (handleClient s inp) @ rest"
proof -
  define s1 where "s1 = handleClient s inp"
  define now where "now = millis (clock inp)"
  define s2 where "s2 = (if sensor_due now (lastSensorMillis s1) then sample s1 now inp else s1)"
  have l: "loop s inp = (if oled_due now (lastOLEDMillis s2) then repaint s2 now inp else s2)"
    by (simp add: loop_def Let_def s1_def now_def s2_def)
  have a: "\<exists>r. out s2 = out s1 @ r" by (simp add: s2_def sample_out)
  have b: "\<exists>r. out (loop s inp) = out s2 @ r" using repaint_out[of s2 now inp] by (simp add: l)
  from a b show ?thesis unfolding s1_def by auto
qed

lemma loop_serves_data:
  assumes "request inp = Some ''/data''"
  shows "\<exists>rest. out (loop s inp) =
           out s @ HttpSend 200 ''application/json'' (data_json s (millis (request_clock inp))) # rest"
  using loop_out[of s inp] by (simp add: handleClient_data[OF assms] handleData_def)

text \<open>
  C9. After power-up \<open>lastTemp\<close> and \<open>lastHum\<close> are NaN, \<open>lastMQRaw\<close> is 0 and
  \<open>lastGasIndex\<close> is 0.0. A \<open>/data\<close> request served before the first sample, by
  \<open>handleData\<close> directly or by a pass of \<open>loop\<close> that finds the request pending, is
  answered with status 200, type \<open>application/json\<close> and a body that reports \<open>null\<close> for
  temperature and humidity and the numbers \<open>0\<close> and \<open>0.00\<close> for the two gas fields. In
  every state reached from power-up the response to \<open>/data\<close> carries the gas fields as
  numbers: \<open>mq_raw\<close> is a decimal integer and \<open>aq_index\<close> a number with two decimals.
\<close>

theorem data_before_first_sample:
  \<open>lastTemp boot = NaN \<and> lastHum boot = NaN \<and> lastMQRaw boot = 0 \<and> lastGasIndex boot = Fin 0
   \<and> data_json boot now =
       ''{"temperature":null,"humidity":null,"mq_raw":0,"aq_index":0.00,"time_ms":''
       @ String_ulong now @ ''}''
   \<and> (fire_times boot ins = [] \<longrightarrow> data_json (run boot ins) now = data_json boot now)
   \<and> \<not> isnan (lastGasIndex (run boot ins))
   \<and> is_two_decimals (String_float (lastGasIndex (run boot ins)) 2)
   \<and> is_integer (String_int (lastMQRaw (run boot ins)))
   \<and> out (handleData boot now) =
       [HttpSend 200 ''application/json''
         (''{"temperature":null,"humidity":null,"mq_raw":0,"aq_index":0.00,"time_ms":''
          @ String_ulong now @ ''}'')]
   \<and> (fire_times boot ins = [] \<longrightarrow>
        out (handleData (run boot ins) now) =
          out (run boot ins) @
          [HttpSend 200 ''application/json''
            (''{"temperature":null,"humidity":null,"mq_raw":0,"aq_index":0.00,"time_ms":''
             @ String_ulong now @ ''}'')])
   \<and> (fire_times boot ins = [] \<and> request inp = Some ''/data'' \<longrightarrow>
        (\<exists>rest. out (loop (run boot ins) inp) =
          out (run boot ins) @
          HttpSend 200 ''application/json''
            (''{"temperature":null,"humidity":null,"mq_raw":0,"aq_index":0.00,"time_ms":''
             @ String_ulong (millis (request_clock inp)) @ ''}'') # rest))
   \<and> out (handleData (run boot ins) now) =
       out (run boot ins) @
       [HttpSend 200 ''application/json''
         (''{"temperature":'' @ json_number_or_null (valid_reading (lastTemp (run boot ins)))
          @ '',"humidity":'' @ json_number_or_null (valid_reading (lastHum (run boot ins)))
          @ '',"mq_raw":'' @ String_int (lastMQRaw (run boot ins))
          @ '',"aq_index":'' @ String_float (lastGasIndex (run boot ins)) 2
          @ '',"time_ms":'' @ String_ulong now @ ''}'')]
   \<and> (request inp = Some ''/data'' \<longrightarrow>
        (\<exists>rest. out (loop (run boot ins) inp) =
          out (run boot ins) @
          HttpSend 200 ''application/json''
            (''{"temperature":'' @ json_number_or_null (valid_reading (lastTemp (run boot ins)))
             @ '',"humidity":'' @ json_number_or_null (valid_reading (lastHum (run boot ins)))
             @ '',"mq_raw":'' @ String_int (lastMQRaw (run boot ins))
             @ '',"aq_index":'' @ String_float (lastGasIndex (run boot ins)) 2
             @ '',"time_ms":'' @ String_ulong (millis (request_clock inp)) @ ''}'') # rest))\<close>
proof -
  have body0: \<open>data_json boot t =
       ''{"temperature":null,"humidity":null,"mq_raw":0,"aq_index":0.00,"time_ms":''
       @ String_ulong t @ ''}''\<close> for t
    by (simp add: data_json_def boot_def isnan_def String_float_def dtostrf_def digit_char_def
        Let_def upt_0_2 String_int_def digits_base.simps)
  have quiet: "data_json (run boot ins) t = data_json boot t" if "fire_times boot ins = []" for t
    using run_without_sample[OF that] by (intro data_json_fields) simp_all
  have body: \<open>data_json (run boot ins) t =
       ''{"temperature":'' @ json_number_or_null (valid_reading (lastTemp (run boot ins)))
          @ '',"humidity":'' @ json_number_or_null (valid_reading (lastHum (run boot ins)))
          @ '',"mq_raw":'' @ String_int (lastMQRaw (run boot ins))
          @ '',"aq_index":'' @ String_float (lastGasIndex (run boot ins)) 2
          @ '',"time_ms":'' @ String_ulong t @ ''}''\<close> for t
    by (simp add: data_json_spec data_body_spec_def)
  have sent: "out (handleData s t) = out s @ [HttpSend 200 ''application/json'' (data_json s t)]"
    for s t
    by (simp add: handleData_def)
  have c1: "lastTemp boot = NaN \<and> lastHum boot = NaN \<and> lastMQRaw boot = 0
      \<and> lastGasIndex boot = Fin 0"
    by (simp add: boot_def)
  have c2: \<open>data_json boot now =
       ''{"temperature":null,"humidity":null,"mq_raw":0,"aq_index":0.00,"time_ms":''
       @ String_ulong now @ ''}''\<close>
    by (rule body0)
  have c3: "fire_times boot ins = [] \<longrightarrow> data_json (run boot ins) now = data_json boot now"
    using quiet by blast
  have c4: "\<not> isnan (lastGasIndex (run boot ins))" by (rule run_gas_finite)
  have c5: "is_two_decimals (String_float (lastGasIndex (run boot ins)) 2)"
    by (rule run_gas_two_decimals)
  have c6: "is_integer (String_int (lastMQRaw (run boot ins)))" by (rule String_int_shape)
  have c7: \<open>out (handleData boot now) =
       [HttpSend 200 ''application/json''
         (''{"temperature":null,"humidity":null,"mq_raw":0,"aq_index":0.00,"time_ms":''
          @ String_ulong now @ ''}'')]\<close>
    unfolding sent body0 by (simp add: boot_def)
  have c8: \<open>fire_times boot ins = [] \<longrightarrow>
        out (handleData (run boot ins) now) =
          out (run boot ins) @
          [HttpSend 200 ''application/json''
            (''{"temperature":null,"humidity":null,"mq_raw":0,"aq_index":0.00,"time_ms":''
             @ String_ulong now @ ''}'')]\<close>
    unfolding sent using quiet[of now] body0[of now] by simp
  have c9: \<open>fire_times boot ins = [] \<and> request inp = Some ''/data'' \<longrightarrow>
        (\<exists>rest. out (loop (run boot ins) inp) =
          out (run boot ins) @
          HttpSend 200 ''application/json''
            (''{"temperature":null,"humidity":null,"mq_raw":0,"aq_index":0.00,"time_ms":''
             @ String_ulong (millis (request_clock inp)) @ ''}'') # rest)\<close>
  proof
    assume h: "fire_times boot ins = [] \<and> request inp = Some ''/data''"
    then have r: "request inp = Some ''/data''" and f: "fire_times boot ins = []" by simp_all
    show \<open>\<exists>rest. out (loop (run boot ins) inp) =
          out (run boot ins) @
          HttpSend 200 ''application/json''
            (''{"temperature":null,"humidity":null,"mq_raw":0,"aq_index":0.00,"time_ms":''
             @ String_ulong (millis (request_clock inp)) @ ''}'') # rest\<close>
      using loop_serves_data[OF r, of "run boot ins"]
      unfolding quiet[OF f] body0 .
  qed
  have c10: \<open>out (handleData (run boot ins) now) =
       out (run boot ins) @
       [HttpSend 200 ''application/json''
         (''{"temperature":'' @ json_number_or_null (valid_reading (lastTemp (run boot ins)))
          @ '',"humidity":'' @ json_number_or_null (valid_reading (lastHum (run boot ins)))
          @ '',"mq_raw":'' @ String_int (lastMQRaw (run boot ins))
          @ '',"aq_index":'' @ String_float (lastGasIndex (run boot ins)) 2
          @ '',"time_ms":'' @ String_ulong now @ ''}'')]\<close>
    unfolding sent body ..
  have c11: \<open>request inp = Some ''/data'' \<longrightarrow>
        (\<exists>rest. out (loop (run boot ins) inp) =
          out (run boot ins) @
          HttpSend 200 ''application/json''
            (''{"temperature":'' @ json_number_or_null (valid_reading (lastTemp (run boot ins)))
             @ '',"humidity":'' @ json_number_or_null (valid_reading (lastHum (run boot ins)))
             @ '',"mq_raw":'' @ String_int (lastMQRaw (run boot ins))
             @ '',"aq_index":'' @ String_float (lastGasIndex (run boot ins)) 2
             @ '',"time_ms":'' @ String_ulong (millis (request_clock inp)) @ ''}'') # rest)\<close>
  proof
    assume r: "request inp = Some ''/data''"
    show \<open>\<exists>rest. out (loop (run boot ins) inp) =
          out (run boot ins) @
          HttpSend 200 ''application/json''
            (''{"temperature":'' @ json_number_or_null (valid_reading (lastTemp (run boot ins)))
             @ '',"humidity":'' @ json_number_or_null (valid_reading (lastHum (run boot ins)))
             @ '',"mq_raw":'' @ String_int (lastMQRaw (run boot ins))
             @ '',"aq_index":'' @ String_float (lastGasIndex (run boot ins)) 2
             @ '',"time_ms":'' @ String_ulong (millis (request_clock inp)) @ ''}'') # rest\<close>
      using loop_serves_data[OF r, of "run boot ins"] unfolding body .
  qed
  show ?thesis
    by (intro conjI) (rule c1[THEN conjunct1] c1[THEN conjunct2, THEN conjunct1]
        c1[THEN conjunct2, THEN conjunct2, THEN conjunct1]
        c1[THEN conjunct2, THEN conjunct2, THEN conjunct2] c2 c3 c4 c5 c6 c7 c8 c9 c10 c11)+
qed

theorem data_before_first_sample_witness:
  \<open>fire_times boot [idle_pass 500, idle_pass 1500] = []
   \<and> request ((idle_pass 1600)\<lparr>request := Some ''/data''\<rparr>) = Some ''/data''
   \<and> data_json (run boot [idle_pass 500, idle_pass 1500]) 1600 =
       ''{"temperature":null,"humidity":null,"mq_raw":0,"aq_index":0.00,"time_ms":1600}''
   \<and> out (handleData (run boot [idle_pass 500, idle_pass 1500]) 1600) =
       [HttpSend 200 ''application/json''
         ''{"temperature":null,"humidity":null,"mq_raw":0,"aq_index":0.00,"time_ms":1600}'']
   \<and> out (loop (run boot [idle_pass 500, idle_pass 1500])
              ((idle_pass 1600)\<lparr>request := Some ''/data''\<rparr>)) =
       [HttpSend 200 ''application/json''
         ''{"temperature":null,"humidity":null,"mq_raw":0,"aq_index":0.00,"time_ms":1600}'']\<close>
proof -
  let ?ins = "[idle_pass 500, idle_pass 1500]"
  let ?inp = "(idle_pass 1600)\<lparr>request := Some ''/data''\<rparr>"
  let ?body = \<open>''{"temperature":null,"humidity":null,"mq_raw":0,"aq_index":0.00,"time_ms":1600}''\<close>
  have f: "fire_times boot ?ins = []"
    by (simp add: loop_stamp sensor_due_def SENSOR_INTERVAL_def millis_def boot_def idle_pass_def)
  have r: "request ?inp = Some ''/data''" by simp
  have u: "String_ulong 1600 = ''1600''"
    by (simp add: String_ulong_def digit_char_def digits_base.simps)
  have m: "millis (request_clock ?inp) = 1600" by (simp add: idle_pass_def millis_def)
  have o: "out (run boot ?ins) = []"
    by (simp add: loop_def Let_def handleClient_def sensor_due_def oled_due_def repaint_def
        SENSOR_INTERVAL_def OLED_UPDATE_INTERVAL_def millis_def boot_def idle_pass_def)
  note t = data_before_first_sample[of 1600 ?ins ?inp]
  from t f have "data_json (run boot ?ins) 1600 = data_json boot 1600" by blast
  moreover from t have \<open>data_json boot 1600 =
       ''{"temperature":null,"humidity":null,"mq_raw":0,"aq_index":0.00,"time_ms":''
       @ String_ulong 1600 @ ''}''\<close> by blast
  ultimately have 1: "data_json (run boot ?ins) 1600 = ?body" unfolding u by simp
  from t f have \<open>out (handleData (run boot ?ins) 1600) =
          out (run boot ?ins) @
          [HttpSend 200 ''application/json''
            (''{"temperature":null,"humidity":null,"mq_raw":0,"aq_index":0.00,"time_ms":''
             @ String_ulong 1600 @ ''}'')]\<close> by blast
  then have 2: "out (handleData (run boot ?ins) 1600) = [HttpSend 200 ''application/json'' ?body]"
    unfolding u o by simp
  from t f r have \<open>\<exists>rest. out (loop (run boot ?ins) ?inp) =
          out (run boot ?ins) @
          HttpSend 200 ''application/json''
            (''{"temperature":null,"humidity":null,"mq_raw":0,"aq_index":0.00,"time_ms":''
             @ String_ulong (millis (request_clock ?inp)) @ ''}'') # rest\<close> by blast
  then obtain rest where
    3: "out (loop (run boot ?ins) ?inp) = HttpSend 200 ''application/json'' ?body # rest"
    unfolding m u o by auto
  have len: "length (out (loop (run boot ?ins) ?inp)) = 1"
    by (simp add: loop_def Let_def handleClient_def handleData_def sensor_due_def oled_due_def
        repaint_def SENSOR_INTERVAL_def OLED_UPDATE_INTERVAL_def millis_def boot_def idle_pass_def)
  from 3 len have "rest = []" by simp
  with 3 have 4: "out (loop (run boot ?ins) ?inp) = [HttpSend 200 ''application/json'' ?body]"
    by simp
  show ?thesis using f r 1 2 4 by blast
qed

end
